theory Spec2Isabelle
  imports Main
begin


section \<open>Values of the schema\<close>

text \<open>
  The schema is JSON loaded into Python objects: \<^verbatim>\<open>None\<close>, booleans, integers, strings,
  lists and dictionaries with string keys. A dictionary keeps its insertion order, so it is
  an association list; the flag of \<open>VDict\<close> tells an \<^verbatim>\<open>OrderedDict\<close> (\<open>True\<close>) from a
  plain \<^verbatim>\<open>dict\<close> (\<open>False\<close>), which matters for \<^verbatim>\<open>==\<close> only. Floating-point numbers
  are not part of the model.
\<close>

datatype val =
    VNone
  | VBool bool
  | VInt int
  | VStr string
  | VList "val list"
  | VDict bool "(string \<times> val) list"

type_synonym items = "(string \<times> val) list"

text \<open>
  The exceptions that the functions below can raise. \<open>UndefinedError\<close> is Jinja2's;
  \<open>UndefinedVariableInTemplate\<close> takes the message, the error it wraps and the context.
\<close>

datatype error =
    UndefinedError string
  | UndefinedVariableInTemplate string error items
  | ValueError string
  | TypeError
  | AttributeError
  | KeyError string
  | IndexError
  | OtherError string

subsection \<open>Python primitives\<close>

fun digits :: "nat \<Rightarrow> string" where
  "digits n =
     (if n < 10 then [''0123456789'' ! n]
      else digits (n div 10) @ [''0123456789'' ! (n mod 10)])"

declare digits.simps [simp del]

definition str_of_int :: "int \<Rightarrow> string" where
  "str_of_int i = (if i < 0 then CHR ''-'' # digits (nat (- i)) else digits (nat i))"

definition startswith :: "string \<Rightarrow> string \<Rightarrow> bool" where
  "startswith s p = (take (length p) s = p)"

fun truthy :: "val \<Rightarrow> bool" where
  "truthy VNone = False"
| "truthy (VBool b) = b"
| "truthy (VInt i) = (i \<noteq> 0)"
| "truthy (VStr s) = (s \<noteq> [])"
| "truthy (VList xs) = (xs \<noteq> [])"
| "truthy (VDict od kvs) = (kvs \<noteq> [])"

fun is_dict :: "val \<Rightarrow> bool" where
  "is_dict (VDict od kvs) = True"
| "is_dict v = False"

text \<open>\<^verbatim>\<open>d[k] = v\<close>: an existing key keeps its place, a new key goes to the end.\<close>

definition dict_set :: "string \<Rightarrow> val \<Rightarrow> items \<Rightarrow> items" where
  "dict_set k v d =
     (if k \<in> fst ` set d then map (\<lambda>(k', v'). if k' = k then (k', v) else (k', v')) d
      else d @ [(k, v)])"

definition dict_del :: "string \<Rightarrow> items \<Rightarrow> items" where
  "dict_del k d = filter (\<lambda>(k', v'). k' \<noteq> k) d"

text \<open>\<^verbatim>\<open>d.get(k)\<close> and \<^verbatim>\<open>d.get(k, default)\<close>.\<close>

definition dict_get :: "items \<Rightarrow> string \<Rightarrow> val \<Rightarrow> val" where
  "dict_get d k dflt = (case map_of d k of None \<Rightarrow> dflt | Some v \<Rightarrow> v)"

text \<open>\<^verbatim>\<open>{**a, **b}\<close>: the entries of \<open>b\<close> are assigned into \<open>a\<close> one by one.\<close>

definition dict_merge :: "items \<Rightarrow> items \<Rightarrow> items" where
  "dict_merge a b = fold (\<lambda>(k, v). dict_set k v) b a"

text \<open>
  \<^verbatim>\<open>a == b\<close>. A boolean equals the integer 0 or 1; two dictionaries are equal when they
  hold the same entries, and two \<^verbatim>\<open>OrderedDict\<close>s only when the order agrees as well.
\<close>

fun py_eq :: "val \<Rightarrow> val \<Rightarrow> bool"
and list_eq :: "val list \<Rightarrow> val list \<Rightarrow> bool"
and items_sub :: "items \<Rightarrow> items \<Rightarrow> bool" where
  "py_eq VNone b = (b = VNone)"
| "py_eq (VBool x) b =
     (case b of VBool y \<Rightarrow> x = y | VInt j \<Rightarrow> (if x then 1 else 0) = j | _ \<Rightarrow> False)"
| "py_eq (VInt i) b =
     (case b of VBool y \<Rightarrow> i = (if y then 1 else 0) | VInt j \<Rightarrow> i = j | _ \<Rightarrow> False)"
| "py_eq (VStr s) b = (b = VStr s)"
| "py_eq (VList xs) b = (case b of VList ys \<Rightarrow> list_eq xs ys | _ \<Rightarrow> False)"
| "py_eq (VDict o1 xs) b =
     (case b of
        VDict o2 ys \<Rightarrow>
          length xs = length ys \<and> items_sub xs ys \<and> (o1 \<and> o2 \<longrightarrow> map fst xs = map fst ys)
      | _ \<Rightarrow> False)"
| "list_eq [] ys = (ys = [])"
| "list_eq (x # xs) ys = (case ys of [] \<Rightarrow> False | y # ys' \<Rightarrow> py_eq x y \<and> list_eq xs ys')"
| "items_sub [] ys = True"
| "items_sub ((k, v) # xs) ys =
     (case map_of ys k of None \<Rightarrow> False | Some v' \<Rightarrow> py_eq v v' \<and> items_sub xs ys)"

text \<open>Iterating a value, as a \<^verbatim>\<open>for\<close> loop or a comprehension does.\<close>

fun py_iter :: "val \<Rightarrow> error + val list" where
  "py_iter (VList xs) = Inr xs"
| "py_iter (VDict od kvs) = Inr (map (\<lambda>(k, v). VStr k) kvs)"
| "py_iter (VStr s) = Inr (map (\<lambda>c. VStr [c]) s)"
| "py_iter v = Inl TypeError"

section \<open>The collaborators\<close>

text \<open>
  The template renderer is Jinja2: \<open>env src bindings\<close> stands for
  \<^verbatim>\<open>env.from_string(src).render(**bindings)\<close> and may raise.
\<close>

type_synonym env = "string \<Rightarrow> items \<Rightarrow> error + string"

text \<open>
  The prompt widgets are those of \<^verbatim>\<open>rich\<close>; \<open>'w\<close> is the state of the terminal (what the
  operator is going to type). Each operation below stands for building the question text
  from the arguments it is given and calling the widget with it:
  \<^item> \<open>ask_text prefix var_name prompts default\<close> is the \<^verbatim>\<open>Prompt.ask\<close> of \<^verbatim>\<open>read_user_variable\<close>,
  \<^item> \<open>ask_yes_no prefix var_name prompts default\<close> is the \<^verbatim>\<open>YesNoPrompt.ask\<close> of
    \<^verbatim>\<open>read_user_yes_no\<close>,
  \<^item> \<open>ask_choice prefix var_name prompts options\<close> is the \<^verbatim>\<open>Prompt.ask\<close> of \<^verbatim>\<open>read_user_choice\<close>,
    which returns one of the keys \<^verbatim>\<open>"1"\<close>, \<^verbatim>\<open>"2"\<close>, ... of the choice map,
  \<^item> \<open>ask_json prefix var_name prompts default\<close> is the \<^verbatim>\<open>JsonPrompt.ask\<close> of \<^verbatim>\<open>read_user_dict\<close>,
  \<^item> \<open>ask_nested prompt_text default\<close> is the \<^verbatim>\<open>Prompt.ask\<close> of \<^verbatim>\<open>_prompt_for_nested_config\<close>.

  \<open>py_str\<close> is Python's \<^verbatim>\<open>str()\<close>, used to format values inside question texts.
\<close>

record 'w collab =
  py_str :: "val \<Rightarrow> string"
  ask_text :: "string \<Rightarrow> string \<Rightarrow> val \<Rightarrow> val \<Rightarrow> 'w \<Rightarrow> error + val \<times> 'w"
  ask_yes_no :: "string \<Rightarrow> string \<Rightarrow> val \<Rightarrow> val \<Rightarrow> 'w \<Rightarrow> error + val \<times> 'w"
  ask_choice :: "string \<Rightarrow> string \<Rightarrow> val \<Rightarrow> val list \<Rightarrow> 'w \<Rightarrow> error + string \<times> 'w"
  ask_json :: "string \<Rightarrow> string \<Rightarrow> val \<Rightarrow> val \<Rightarrow> 'w \<Rightarrow> error + val \<times> 'w"
  ask_nested :: "val \<Rightarrow> val \<Rightarrow> 'w \<Rightarrow> error + val \<times> 'w"

section \<open>The prompt functions\<close>

text \<open>
  \<^verbatim>\<open>read_user_variable\<close> asks until the answer is not \<^verbatim>\<open>None\<close>; the loop need not end, so
  the function returns an option and \<open>None\<close> is a run that never returns.
\<close>

partial_function (option) read_user_variable ::
  "'w collab \<Rightarrow> string \<Rightarrow> val \<Rightarrow> val \<Rightarrow> string \<Rightarrow> 'w \<Rightarrow> (error + val \<times> 'w) option" where
  "read_user_variable C var_name default_value prompts prefix w =
     (case ask_text C prefix var_name prompts default_value w of
        Inl e \<Rightarrow> Some (Inl e)
      | Inr (variable, w') \<Rightarrow>
          if variable \<noteq> VNone then Some (Inr (variable, w'))
          else read_user_variable C var_name default_value prompts prefix w')"

declare read_user_variable.simps [code]

definition read_user_yes_no ::
  "'w collab \<Rightarrow> string \<Rightarrow> val \<Rightarrow> val \<Rightarrow> string \<Rightarrow> 'w \<Rightarrow> error + val \<times> 'w" where
  "read_user_yes_no C var_name default_value prompts prefix w =
     ask_yes_no C prefix var_name prompts default_value w"

definition choice_map :: "val list \<Rightarrow> (string \<times> val) list" where
  "choice_map options = zip (map (\<lambda>i. str_of_int (int i)) [1 ..< Suc (length options)]) options"

definition read_user_choice ::
  "'w collab \<Rightarrow> string \<Rightarrow> val list \<Rightarrow> val \<Rightarrow> string \<Rightarrow> 'w \<Rightarrow> error + val \<times> 'w" where
  "read_user_choice C var_name options prompts prefix w =
     (if options = [] then Inl (ValueError [])
      else case ask_choice C prefix var_name prompts options w of
        Inl e \<Rightarrow> Inl e
      | Inr (user_choice, w') \<Rightarrow>
          (case map_of (choice_map options) user_choice of
             None \<Rightarrow> Inl (KeyError user_choice)
           | Some v \<Rightarrow> Inr (v, w')))"

definition read_user_dict ::
  "'w collab \<Rightarrow> string \<Rightarrow> val \<Rightarrow> val \<Rightarrow> string \<Rightarrow> 'w \<Rightarrow> error + val \<times> 'w" where
  "read_user_dict C var_name default_value prompts prefix w =
     (if \<not> is_dict default_value then Inl TypeError
      else ask_json C prefix var_name prompts default_value w)"

section \<open>The variable renderer\<close>

definition render_str :: "env \<Rightarrow> string \<Rightarrow> items \<Rightarrow> error + string" where
  "render_str env raw cookiecutter_dict = env raw [(''cookiecutter'', VDict True cookiecutter_dict)]"

fun render_variable :: "env \<Rightarrow> val \<Rightarrow> items \<Rightarrow> error + val"
and render_list :: "env \<Rightarrow> val list \<Rightarrow> items \<Rightarrow> error + val list"
and render_items :: "env \<Rightarrow> items \<Rightarrow> items \<Rightarrow> items \<Rightarrow> error + items" where
  "render_variable env VNone cd = Inr VNone"
| "render_variable env (VBool b) cd = Inr (VBool b)"
| "render_variable env (VDict od kvs) cd =
     (case render_items env kvs cd [] of Inl e \<Rightarrow> Inl e | Inr r \<Rightarrow> Inr (VDict False r))"
| "render_variable env (VList xs) cd =
     (case render_list env xs cd of Inl e \<Rightarrow> Inl e | Inr ys \<Rightarrow> Inr (VList ys))"
| "render_variable env (VInt i) cd =
     (case render_str env (str_of_int i) cd of Inl e \<Rightarrow> Inl e | Inr s \<Rightarrow> Inr (VStr s))"
| "render_variable env (VStr s) cd =
     (case render_str env s cd of Inl e \<Rightarrow> Inl e | Inr s' \<Rightarrow> Inr (VStr s'))"
| "render_list env [] cd = Inr []"
| "render_list env (x # xs) cd =
     (case render_variable env x cd of
        Inl e \<Rightarrow> Inl e
      | Inr y \<Rightarrow> (case render_list env xs cd of Inl e \<Rightarrow> Inl e | Inr ys \<Rightarrow> Inr (y # ys)))"
| "render_items env [] cd acc = Inr acc"
| "render_items env ((k, v) # kvs) cd acc =
     (case render_str env k cd of
        Inl e \<Rightarrow> Inl e
      | Inr k' \<Rightarrow>
          (case render_variable env v cd of
             Inl e \<Rightarrow> Inl e
           | Inr v' \<Rightarrow> render_items env kvs cd (dict_set k' v' acc)))"


section \<open>Choices\<close>

definition prompt_choice_for_config ::
  "'w collab \<Rightarrow> items \<Rightarrow> env \<Rightarrow> string \<Rightarrow> val \<Rightarrow> bool \<Rightarrow> val \<Rightarrow> string \<Rightarrow> 'w \<Rightarrow> error + val \<times> 'w" where
  "prompt_choice_for_config C cookiecutter_dict env key options no_input prompts prefix w =
     (case py_iter options of
        Inl e \<Rightarrow> Inl e
      | Inr raws \<Rightarrow>
          (case render_list env raws cookiecutter_dict of
             Inl e \<Rightarrow> Inl e
           | Inr rendered_options \<Rightarrow>
               if no_input then
                 (case rendered_options of [] \<Rightarrow> Inl IndexError | x # xs \<Rightarrow> Inr (x, w))
               else read_user_choice C key rendered_options prompts prefix w))"

fun prompts_from_options :: "'w collab \<Rightarrow> items \<Rightarrow> items \<Rightarrow> error + items" where
  "prompts_from_options C [] prompts = Inr prompts"
| "prompts_from_options C ((option_key, option_value) # rest) prompts =
     (case option_value of
        VDict od ov \<Rightarrow>
          (let title = py_str C (dict_get ov ''title'' (VStr option_key));
               description = dict_get ov ''description'' (VStr option_key);
               label = (if py_eq (VStr title) description then title
                        else title @ '' ('' @ py_str C description @ '')'')
           in prompts_from_options C rest (dict_set option_key (VStr label) prompts))
      | _ \<Rightarrow> Inl AttributeError)"

definition prompt_choice_for_template ::
  "'w collab \<Rightarrow> string \<Rightarrow> val \<Rightarrow> bool \<Rightarrow> 'w \<Rightarrow> error + val \<times> 'w" where
  "prompt_choice_for_template C key options no_input w =
     (case options of
        VDict od kvs \<Rightarrow>
          (let opts = map (\<lambda>(k, v). VStr k) kvs in
           case prompts_from_options C kvs [(''__prompt__'', VStr ''Select a template'')] of
             Inl e \<Rightarrow> Inl e
           | Inr p \<Rightarrow>
               (let prompts = VDict False [(''templates'', VDict False p)] in
                if no_input then (case opts of [] \<Rightarrow> Inl IndexError | x # xs \<Rightarrow> Inr (x, w))
                else read_user_choice C key opts prompts [] w))
      | _ \<Rightarrow> Inl AttributeError)"

section \<open>The nested config resolver\<close>

definition reserved :: "string \<Rightarrow> bool" where
  "reserved k = (k = ''__prompts__'' \<or> k = ''__conditional__'')"

definition default_prompt :: "'w collab \<Rightarrow> string \<Rightarrow> string \<Rightarrow> val \<Rightarrow> string" where
  "default_prompt C nested_prefix key v =
     nested_prefix @ ''[bold magenta]'' @ key @ ''[/] (default: '' @ py_str C v @ ''): ''"

text \<open>
  \<open>nested_fields\<close> is the loop of \<^verbatim>\<open>_prompt_for_nested_config\<close> over the fields that are left,
  with the \<open>result\<close> built so far. \<^verbatim>\<open>prompts_nested.get\<close> is evaluated for every field that
  is not reserved, also under no-input, and raises when \<^verbatim>\<open>__prompts__\<close> is not a dictionary.
\<close>

fun prompt_for_nested_config ::
  "'w collab \<Rightarrow> string \<Rightarrow> items \<Rightarrow> bool \<Rightarrow> string \<Rightarrow> 'w \<Rightarrow> error + items \<times> 'w"
and nested_fields ::
  "'w collab \<Rightarrow> val \<Rightarrow> bool \<Rightarrow> string \<Rightarrow> items \<Rightarrow> items \<Rightarrow> 'w \<Rightarrow> error + items \<times> 'w" where
  "prompt_for_nested_config C parent_key nested_config no_input prefix w =
     nested_fields C (dict_get nested_config ''__prompts__'' (VDict False [])) no_input
       (prefix @ ''    '') nested_config [] w"
| "nested_fields C prompts_nested no_input nested_prefix [] result w = Inr (result, w)"
| "nested_fields C prompts_nested no_input nested_prefix ((key, v) # rest) result w =
     (if reserved key then nested_fields C prompts_nested no_input nested_prefix rest result w
      else case prompts_nested of
        VDict pod ps \<Rightarrow>
          (let prompt_text = dict_get ps key (VStr (default_prompt C nested_prefix key v)) in
           case v of
             VDict od kvs \<Rightarrow>
               if ''__prompts__'' \<in> fst ` set kvs then
                 (case prompt_for_nested_config C key kvs no_input nested_prefix w of
                    Inl e \<Rightarrow> Inl e
                  | Inr (r, w') \<Rightarrow>
                      nested_fields C prompts_nested no_input nested_prefix rest
                        (dict_set key (VDict True r) result) w')
               else if no_input then
                 nested_fields C prompts_nested no_input nested_prefix rest
                   (dict_set key v result) w
               else
                 (case ask_nested C prompt_text v w of
                    Inl e \<Rightarrow> Inl e
                  | Inr (a, w') \<Rightarrow>
                      nested_fields C prompts_nested no_input nested_prefix rest
                        (dict_set key a result) w')
           | _ \<Rightarrow>
               if no_input then
                 nested_fields C prompts_nested no_input nested_prefix rest
                   (dict_set key v result) w
               else
                 (case ask_nested C prompt_text v w of
                    Inl e \<Rightarrow> Inl e
                  | Inr (a, w') \<Rightarrow>
                      nested_fields C prompts_nested no_input nested_prefix rest
                        (dict_set key a result) w'))
      | _ \<Rightarrow> Inl AttributeError)"


section \<open>The top-level config resolver\<close>

definition is_private :: "string \<Rightarrow> bool" where
  "is_private key = (startswith key ''_'' \<and> \<not> startswith key ''__'')"

definition prefix_local :: "nat \<Rightarrow> nat \<Rightarrow> string" where
  "prefix_local count size' =
     ''  [dim]['' @ str_of_int (int count) @ ''/'' @ str_of_int (int size') @ ''][/] ''"

definition unable_to_render :: "string \<Rightarrow> string" where
  "unable_to_render key = ''Unable to render variable '' @ [CHR 0x27] @ key @ [CHR 0x27]"

text \<open>\<^verbatim>\<open>try: ... except UndefinedError as err: raise UndefinedVariableInTemplate(msg, err, context)\<close>\<close>

fun wrap_undefined :: "string \<Rightarrow> items \<Rightarrow> error + 'a \<Rightarrow> error + 'a" where
  "wrap_undefined key context (Inl (UndefinedError m)) =
     Inl (UndefinedVariableInTemplate (unable_to_render key) (UndefinedError m) context)"
| "wrap_undefined key context r = r"

text \<open>
  The state of both loops is the pair of \<^verbatim>\<open>cookiecutter_dict\<close> and \<^verbatim>\<open>count\<close>, and the terminal.
  \<open>choice_with_nested\<close> is the branch of the first loop for a dictionary that has both
  \<^verbatim>\<open>"choices"\<close> and \<^verbatim>\<open>"_"\<close>.
\<close>

definition choice_with_nested ::
  "'w collab \<Rightarrow> env \<Rightarrow> val \<Rightarrow> bool \<Rightarrow> nat \<Rightarrow> string \<Rightarrow> val \<Rightarrow> val \<Rightarrow> items \<times> nat \<Rightarrow> 'w
   \<Rightarrow> error + (items \<times> nat) \<times> 'w" where
  "choice_with_nested C env prompts no_input size' key choices nested st w =
     (let cookiecutter_dict = fst st; count = snd st + 1 in
      case prompt_choice_for_config C cookiecutter_dict env key choices no_input prompts
             (prefix_local count size') w of
        Inl e \<Rightarrow> Inl e
      | Inr (choice_val, w1) \<Rightarrow>
          (case nested of
             VDict od nested_cfg \<Rightarrow>
               (let condition = dict_get nested_cfg ''__conditional__'' VNone in
                if \<not> no_input \<and> truthy condition then
                  (case condition of
                     VDict cod c \<Rightarrow>
                       if py_eq choice_val (dict_get c ''value'' VNone) then
                         (case prompt_for_nested_config C key nested_cfg no_input ''    '' w1 of
                            Inl e \<Rightarrow> Inl e
                          | Inr (nested_val, w2) \<Rightarrow>
                              Inr ((dict_set key
                                      (VDict False (dict_merge [(''choice'', choice_val)] nested_val))
                                      cookiecutter_dict, count), w2))
                       else
                         Inr ((dict_set key (VDict False [(''choice'', choice_val)])
                                 cookiecutter_dict, count), w1)
                   | _ \<Rightarrow> Inl AttributeError)
                else if \<not> no_input \<and> \<not> truthy condition then
                  (case prompt_for_nested_config C key nested_cfg no_input ''    '' w1 of
                     Inl e \<Rightarrow> Inl e
                   | Inr (nested_val, w2) \<Rightarrow>
                       Inr ((dict_set key
                               (VDict False (dict_merge [(''choice'', choice_val)] nested_val))
                               cookiecutter_dict, count), w2))
                else
                  Inr ((dict_set key (VDict False [(''choice'', choice_val)])
                          cookiecutter_dict, count), w1))
           | _ \<Rightarrow> Inl AttributeError))"

text \<open>The part of the first loop's body that is inside \<^verbatim>\<open>try\<close>.\<close>

definition first_pass_try ::
  "'w collab \<Rightarrow> env \<Rightarrow> val \<Rightarrow> bool \<Rightarrow> nat \<Rightarrow> string \<Rightarrow> val \<Rightarrow> items \<times> nat \<Rightarrow> 'w
   \<Rightarrow> (error + (items \<times> nat) \<times> 'w) option" where
  "first_pass_try C env prompts no_input size' key raw st w =
     (let cookiecutter_dict = fst st; count = snd st in
      case raw of
        VList xs \<Rightarrow>
          Some (case prompt_choice_for_config C cookiecutter_dict env key raw no_input prompts
                       (prefix_local count size') w of
                  Inl e \<Rightarrow> Inl e
                | Inr (v, w') \<Rightarrow>
                    Inr ((dict_set key (VDict False [(''choice'', v)]) cookiecutter_dict, count), w'))
      | VBool b \<Rightarrow>
          Some (if no_input then
                  (case render_variable env raw cookiecutter_dict of
                     Inl e \<Rightarrow> Inl e
                   | Inr v \<Rightarrow> Inr ((dict_set key v cookiecutter_dict, count), w))
                else
                  (case read_user_yes_no C key raw prompts (prefix_local count size') w of
                     Inl e \<Rightarrow> Inl e
                   | Inr (v, w') \<Rightarrow> Inr ((dict_set key v cookiecutter_dict, count), w')))
      | VDict od kvs \<Rightarrow> Some (Inr (st, w))
      | _ \<Rightarrow>
          (case render_variable env raw cookiecutter_dict of
             Inl e \<Rightarrow> Some (Inl e)
           | Inr v \<Rightarrow>
               if \<not> no_input then
                 (case read_user_variable C key v prompts (prefix_local count size') w of
                    None \<Rightarrow> None
                  | Some (Inl e) \<Rightarrow> Some (Inl e)
                  | Some (Inr (v', w')) \<Rightarrow>
                      Some (Inr ((dict_set key v' cookiecutter_dict, count), w')))
               else Some (Inr ((dict_set key v cookiecutter_dict, count), w))))"

definition is_choice_with_nested :: "val \<Rightarrow> bool" where
  "is_choice_with_nested raw =
     (case raw of
        VDict od kvs \<Rightarrow> ''choices'' \<in> fst ` set kvs \<and> ''_'' \<in> fst ` set kvs
      | _ \<Rightarrow> False)"

definition first_pass_step ::
  "'w collab \<Rightarrow> env \<Rightarrow> items \<Rightarrow> val \<Rightarrow> bool \<Rightarrow> nat \<Rightarrow> string \<Rightarrow> val \<Rightarrow> items \<times> nat \<Rightarrow> 'w
   \<Rightarrow> (error + (items \<times> nat) \<times> 'w) option" where
  "first_pass_step C env context prompts no_input size' key raw st w =
     (if is_private key then Some (Inr ((dict_set key raw (fst st), snd st), w))
      else if startswith key ''__'' then
        Some (case render_variable env raw (fst st) of
                Inl e \<Rightarrow> Inl e
              | Inr v \<Rightarrow> Inr ((dict_set key v (fst st), snd st), w))
      else if is_choice_with_nested raw then
        (case raw of
           VDict od kvs \<Rightarrow>
             Some (choice_with_nested C env prompts no_input size' key
                     (dict_get kvs ''choices'' VNone) (dict_get kvs ''_'' VNone) st w)
         | _ \<Rightarrow> Some (Inr (st, w)))
      else
        map_option (wrap_undefined key context)
          (first_pass_try C env prompts no_input size' key raw
             (fst st, if is_dict raw then snd st else snd st + 1) w))"

fun first_pass ::
  "'w collab \<Rightarrow> env \<Rightarrow> items \<Rightarrow> val \<Rightarrow> bool \<Rightarrow> nat \<Rightarrow> items \<Rightarrow> items \<times> nat \<Rightarrow> 'w
   \<Rightarrow> (error + (items \<times> nat) \<times> 'w) option" where
  "first_pass C env context prompts no_input size' [] st w = Some (Inr (st, w))"
| "first_pass C env context prompts no_input size' ((key, raw) # rest) st w =
     (case first_pass_step C env context prompts no_input size' key raw st w of
        None \<Rightarrow> None
      | Some (Inl e) \<Rightarrow> Some (Inl e)
      | Some (Inr (st', w')) \<Rightarrow> first_pass C env context prompts no_input size' rest st' w')"

text \<open>
  \<^verbatim>\<open>cookiecutter_dict.get(cond_key)\<close>: the keys are strings, a list or a dictionary cannot be
  hashed.
\<close>

fun lookup_resolved :: "items \<Rightarrow> val \<Rightarrow> error + val" where
  "lookup_resolved cd (VStr k) = Inr (dict_get cd k VNone)"
| "lookup_resolved cd (VList xs) = Inl TypeError"
| "lookup_resolved cd (VDict od kvs) = Inl TypeError"
| "lookup_resolved cd v = Inr VNone"

definition strip_markers :: "items \<Rightarrow> items" where
  "strip_markers kvs = filter (\<lambda>(k, v). \<not> reserved k) kvs"

text \<open>The part of the second loop's body that is inside \<^verbatim>\<open>try\<close>.\<close>

definition second_pass_try ::
  "'w collab \<Rightarrow> env \<Rightarrow> val \<Rightarrow> bool \<Rightarrow> nat \<Rightarrow> string \<Rightarrow> val \<Rightarrow> items \<times> nat \<Rightarrow> 'w
   \<Rightarrow> error + (items \<times> nat) \<times> 'w" where
  "second_pass_try C env prompts no_input size' key raw st w =
     (let cookiecutter_dict = fst st; count = snd st in
      case raw of
        VDict od kvs \<Rightarrow>
          if ''__prompts__'' \<in> fst ` set kvs then
            (case
               (if ''__conditional__'' \<in> fst ` set kvs then
                  (case dict_get kvs ''__conditional__'' VNone of
                     VDict cod c \<Rightarrow>
                       (case lookup_resolved cookiecutter_dict (dict_get c ''option'' VNone) of
                          Inl e \<Rightarrow> Inl e
                        | Inr found \<Rightarrow>
                            if py_eq found (dict_get c ''value'' VNone) then
                              (case prompt_for_nested_config C key kvs no_input [] w of
                                 Inl e \<Rightarrow> Inl e
                               | Inr (r, w') \<Rightarrow> Inr (VDict True r, w'))
                            else Inr (VDict False (strip_markers kvs), w))
                   | _ \<Rightarrow> Inl AttributeError)
                else
                  (case prompt_for_nested_config C key kvs no_input [] w of
                     Inl e \<Rightarrow> Inl e
                   | Inr (r, w') \<Rightarrow> Inr (VDict True r, w')))
             of
               Inl e \<Rightarrow> Inl e
             | Inr (v, w') \<Rightarrow> Inr ((dict_set key v cookiecutter_dict, count), w'))
          else
            (case render_variable env raw cookiecutter_dict of
               Inl e \<Rightarrow> Inl e
             | Inr v \<Rightarrow>
                 if \<not> no_input \<and> \<not> startswith key ''__'' then
                   (case read_user_dict C key v prompts (prefix_local (count + 1) size') w of
                      Inl e \<Rightarrow> Inl e
                    | Inr (v', w') \<Rightarrow> Inr ((dict_set key v' cookiecutter_dict, count + 1), w'))
                 else Inr ((dict_set key v cookiecutter_dict, count + 1), w))
      | _ \<Rightarrow> Inr (st, w))"

definition second_pass_step ::
  "'w collab \<Rightarrow> env \<Rightarrow> items \<Rightarrow> val \<Rightarrow> bool \<Rightarrow> nat \<Rightarrow> string \<Rightarrow> val \<Rightarrow> items \<times> nat \<Rightarrow> 'w
   \<Rightarrow> error + (items \<times> nat) \<times> 'w" where
  "second_pass_step C env context prompts no_input size' key raw st w =
     (if key \<in> fst ` set (fst st) then Inr (st, w)
      else if is_private key then Inr (st, w)
      else wrap_undefined key context (second_pass_try C env prompts no_input size' key raw st w))"

fun second_pass ::
  "'w collab \<Rightarrow> env \<Rightarrow> items \<Rightarrow> val \<Rightarrow> bool \<Rightarrow> nat \<Rightarrow> items \<Rightarrow> items \<times> nat \<Rightarrow> 'w
   \<Rightarrow> error + (items \<times> nat) \<times> 'w" where
  "second_pass C env context prompts no_input size' [] st w = Inr (st, w)"
| "second_pass C env context prompts no_input size' ((key, raw) # rest) st w =
     (case second_pass_step C env context prompts no_input size' key raw st w of
        Inl e \<Rightarrow> Inl e
      | Inr (st', w') \<Rightarrow> second_pass C env context prompts no_input size' rest st' w')"

text \<open>
  \<^verbatim>\<open>context['cookiecutter'].pop('__prompts__', {})\<close>: the prompts and the context as the call
  leaves it.
\<close>

definition pop_prompts :: "items \<Rightarrow> error + val \<times> items" where
  "pop_prompts context =
     (case map_of context ''cookiecutter'' of
        None \<Rightarrow> Inl (KeyError ''cookiecutter'')
      | Some (VDict od kvs) \<Rightarrow>
          Inr (dict_get kvs ''__prompts__'' (VDict False []),
               dict_set ''cookiecutter'' (VDict od (dict_del ''__prompts__'' kvs)) context)
      | Some (VList xs) \<Rightarrow> Inl TypeError
      | Some v \<Rightarrow> Inl AttributeError)"

definition schema_items :: "items \<Rightarrow> items" where
  "schema_items context =
     (case map_of context ''cookiecutter'' of Some (VDict od kvs) \<Rightarrow> kvs | _ \<Rightarrow> [])"

definition visible_prompts :: "items \<Rightarrow> string list" where
  "visible_prompts all_prompts = map fst (filter (\<lambda>(k, v). \<not> startswith k ''_'') all_prompts)"

text \<open>
  Both loops, from the empty \<^verbatim>\<open>cookiecutter_dict\<close>; the result keeps \<^verbatim>\<open>count\<close>, which the
  function itself drops when it returns.
\<close>

definition resolve_passes ::
  "'w collab \<Rightarrow> env \<Rightarrow> items \<Rightarrow> val \<Rightarrow> bool \<Rightarrow> 'w \<Rightarrow> (error + (items \<times> nat) \<times> 'w) option" where
  "resolve_passes C env context prompts no_input w =
     (let all_prompts = schema_items context;
          size' = length (visible_prompts all_prompts) in
      case first_pass C env context prompts no_input size' all_prompts ([], 0) w of
        None \<Rightarrow> None
      | Some (Inl e) \<Rightarrow> Some (Inl e)
      | Some (Inr (st, w')) \<Rightarrow>
          Some (second_pass C env context prompts no_input size' all_prompts st w'))"

text \<open>
  \<open>prompt_for_config\<close> returns the context as the call leaves it (the caller's object is
  mutated) and either the exception or the resolved mapping; \<open>None\<close> is a run that never
  returns. \<open>create_env_with_context\<close> is \<^verbatim>\<open>cookiecutter.utils.create_env_with_context\<close>.
\<close>

definition prompt_for_config ::
  "(items \<Rightarrow> error + env) \<Rightarrow> 'w collab \<Rightarrow> items \<Rightarrow> bool \<Rightarrow> 'w
   \<Rightarrow> (items \<times> (error + items \<times> 'w)) option" where
  "prompt_for_config create_env_with_context C context no_input w =
     (case create_env_with_context context of
        Inl e \<Rightarrow> Some (context, Inl e)
      | Inr env \<Rightarrow>
          (case pop_prompts context of
             Inl e \<Rightarrow> Some (context, Inl e)
           | Inr (prompts, context') \<Rightarrow>
               (case resolve_passes C env context' prompts no_input w of
                  None \<Rightarrow> None
                | Some (Inl e) \<Rightarrow> Some (context', Inl e)
                | Some (Inr ((cookiecutter_dict, count), w')) \<Rightarrow>
                    Some (context', Inr (cookiecutter_dict, w')))))"


section \<open>The template selector\<close>

text \<open>
  \<^verbatim>\<open>re.search(r'\((.+)\)', val).group(1)\<close>: from the leftmost opening parenthesis that has
  a match, the longest run without a newline that is followed by a closing parenthesis.
\<close>

definition paren_group :: "string \<Rightarrow> string option" where
  "paren_group run =
     (case filter (\<lambda>j. run ! j = CHR '')'') [1 ..< length run] of
        [] \<Rightarrow> None
      | j # js \<Rightarrow> Some (take (last (j # js)) run))"

fun re_search_paren :: "string \<Rightarrow> string option" where
  "re_search_paren [] = None"
| "re_search_paren (c # cs) =
     (if c = CHR ''('' then
        (case paren_group (takeWhile (\<lambda>x. x \<noteq> CHR 0x0A) cs) of
           Some g \<Rightarrow> Some g
         | None \<Rightarrow> re_search_paren cs)
      else re_search_paren cs)"

text \<open>
  The paths are \<^verbatim>\<open>pathlib\<close>'s, which depend on the platform and on the file system:
  \<open>is_absolute p\<close> is \<^verbatim>\<open>Path(p).is_absolute()\<close> and \<open>resolve_under repo_dir p\<close> is the string
  of \<^verbatim>\<open>(Path(repo_dir).resolve() / Path(p)).resolve()\<close>.
\<close>

record pathlib =
  is_absolute :: "string \<Rightarrow> bool"
  resolve_under :: "string \<Rightarrow> string \<Rightarrow> error + string"

text \<open>\<^verbatim>\<open>config[val]["path"]\<close>\<close>

definition option_path :: "val \<Rightarrow> val \<Rightarrow> error + val" where
  "option_path config v =
     (case (config, v) of
        (VDict od kvs, VStr k) \<Rightarrow>
          (case map_of kvs k of
             None \<Rightarrow> Inl (KeyError k)
           | Some (VDict od' ov) \<Rightarrow>
               (case map_of ov ''path'' of None \<Rightarrow> Inl (KeyError ''path'') | Some p \<Rightarrow> Inr p)
           | Some other \<Rightarrow> Inl TypeError)
      | _ \<Rightarrow> Inl TypeError)"

definition select_template ::
  "'w collab \<Rightarrow> env \<Rightarrow> items \<Rightarrow> val \<Rightarrow> bool \<Rightarrow> 'w \<Rightarrow> error + val \<times> 'w" where
  "select_template C env schema prompts no_input w =
     (let config = dict_get schema ''templates'' (VDict False []) in
      if truthy config then
        (case prompt_choice_for_template C ''templates'' config no_input w of
           Inl e \<Rightarrow> Inl e
         | Inr (v, w') \<Rightarrow>
             (case option_path config v of Inl e \<Rightarrow> Inl e | Inr template \<Rightarrow> Inr (template, w')))
      else
        (let config = dict_get schema ''template'' (VList []) in
         case prompt_choice_for_config C [] env ''template'' config no_input prompts [] w of
           Inl e \<Rightarrow> Inl e
         | Inr (v, w') \<Rightarrow>
             (case v of
                VStr s \<Rightarrow>
                  (case re_search_paren s of
                     None \<Rightarrow> Inl AttributeError
                   | Some g \<Rightarrow> Inr (VStr g, w'))
              | _ \<Rightarrow> Inl TypeError)))"

definition checked_path :: "pathlib \<Rightarrow> string \<Rightarrow> val \<Rightarrow> error + string" where
  "checked_path fs repo_dir template =
     (if \<not> truthy template then Inl (ValueError ''Illegal template path'')
      else case template of
        VStr p \<Rightarrow>
          if is_absolute fs p then Inl (ValueError ''Illegal template path'')
          else resolve_under fs repo_dir p
      | _ \<Rightarrow> Inl TypeError)"

definition choose_nested_template ::
  "(items \<Rightarrow> error + env) \<Rightarrow> pathlib \<Rightarrow> 'w collab \<Rightarrow> items \<Rightarrow> string \<Rightarrow> bool \<Rightarrow> 'w
   \<Rightarrow> items \<times> (error + string \<times> 'w)" where
  "choose_nested_template create_env_with_context fs C context repo_dir no_input w =
     (case create_env_with_context context of
        Inl e \<Rightarrow> (context, Inl e)
      | Inr env \<Rightarrow>
          (case pop_prompts context of
             Inl e \<Rightarrow> (context, Inl e)
           | Inr (prompts, context') \<Rightarrow>
               (context',
                case select_template C env (schema_items context') prompts no_input w of
                  Inl e \<Rightarrow> Inl e
                | Inr (template, w') \<Rightarrow>
                    (case checked_path fs repo_dir template of
                       Inl e \<Rightarrow> Inl e
                     | Inr template_path \<Rightarrow> Inr (template_path, w')))))"

section \<open>Predicates used in the statements\<close>

text \<open>
  A key is written by the first loop when it begins with an underscore, when its value is a
  dictionary with \<^verbatim>\<open>"choices"\<close> and \<^verbatim>\<open>"_"\<close>, or when its value is not a dictionary; the other
  keys are left to the second loop.
\<close>

definition written_in_first_pass :: "string \<Rightarrow> val \<Rightarrow> bool" where
  "written_in_first_pass key raw =
     (startswith key ''_'' \<or> is_choice_with_nested raw \<or> \<not> is_dict raw)"

definition written_in_second_pass :: "items \<Rightarrow> string \<Rightarrow> val \<Rightarrow> bool" where
  "written_in_second_pass cd key raw = (key \<notin> fst ` set cd \<and> \<not> is_private key \<and> is_dict raw)"

text \<open>An entry of a dictionary and its rendering: the key and the value are both rendered.\<close>

definition rendered_entry :: "env \<Rightarrow> items \<Rightarrow> string \<times> val \<Rightarrow> string \<times> val \<Rightarrow> bool" where
  "rendered_entry env cd kv kv' =
     (render_variable env (VStr (fst kv)) cd = Inr (VStr (fst kv'))
      \<and> render_variable env (snd kv) cd = Inr (snd kv'))"

text \<open>\<^verbatim>\<open>condition.get("value")\<close> of a \<^verbatim>\<open>__conditional__\<close> descriptor.\<close>

definition condition_value :: "val \<Rightarrow> val" where
  "condition_value condition =
     (case condition of VDict cod c \<Rightarrow> dict_get c ''value'' VNone | _ \<Rightarrow> VNone)"

text \<open>
  A collaborator with no terminal: every question fails. Under no-input no question is
  asked, and a run with any collaborator is compared with the run of this one;
  \<open>at_terminal w\<close> puts the terminal \<open>w\<close> into its result.
\<close>

definition silent :: "unit collab" where
  "silent =
     \<lparr> py_str = (\<lambda>v. []),
       ask_text = (\<lambda>prefix var_name prompts dflt w. Inl (OtherError ''no terminal'')),
       ask_yes_no = (\<lambda>prefix var_name prompts dflt w. Inl (OtherError ''no terminal'')),
       ask_choice = (\<lambda>prefix var_name prompts options w. Inl (OtherError ''no terminal'')),
       ask_json = (\<lambda>prefix var_name prompts dflt w. Inl (OtherError ''no terminal'')),
       ask_nested = (\<lambda>prompt_text dflt w. Inl (OtherError ''no terminal'')) \<rparr>"

definition at_terminal :: "'w \<Rightarrow> error + 'a \<times> unit \<Rightarrow> error + 'a \<times> 'w" where
  "at_terminal w r = map_sum id (\<lambda>p. (fst p, w)) r"

section \<open>Collaborators for the examples\<close>

text \<open>
  A small renderer: the template \<^verbatim>\<open>{{ cookiecutter.NAME }}\<close> is the string stored under
  \<open>NAME\<close>, an undefined \<open>NAME\<close> raises, and any other text is returned as it is.
\<close>

definition env_mini :: env where
  "env_mini src bindings =
     (if startswith src ''{{ cookiecutter.'' \<and> drop (length src - 3) src = '' }}'' then
        (let name = take (length src - 19) (drop 16 src) in
         case map_of bindings ''cookiecutter'' of
           Some (VDict od cd) \<Rightarrow>
             (case map_of cd name of
                Some (VStr s) \<Rightarrow> Inr s
              | Some v \<Rightarrow> Inr ''<object>''
              | None \<Rightarrow> Inl (UndefinedError name))
         | _ \<Rightarrow> Inl (UndefinedError ''cookiecutter''))
      else Inr src)"

definition create_env_mini :: "items \<Rightarrow> error + env" where
  "create_env_mini context = Inr env_mini"

text \<open>
  An operator who types the lines of a script, one per question; an empty line takes the
  default, and the end of the script is an error.
\<close>

definition typed :: "val \<Rightarrow> (string \<Rightarrow> val) \<Rightarrow> string list \<Rightarrow> error + val \<times> string list" where
  "typed dflt parse w =
     (case w of
        [] \<Rightarrow> Inl (OtherError ''EOF'')
      | a # w' \<Rightarrow> Inr (if a = [] then dflt else parse a, w'))"

definition scripted :: "string list collab" where
  "scripted =
     \<lparr> py_str = (\<lambda>v. case v of VStr s \<Rightarrow> s | VInt i \<Rightarrow> str_of_int i | _ \<Rightarrow> ''<object>''),
       ask_text = (\<lambda>prefix var_name prompts dflt. typed dflt VStr),
       ask_yes_no = (\<lambda>prefix var_name prompts dflt. typed dflt (\<lambda>a. VBool (a = ''yes''))),
       ask_choice = (\<lambda>prefix var_name prompts options w.
          case w of
            [] \<Rightarrow> Inl (OtherError ''EOF'')
          | a # w' \<Rightarrow> Inr (if a = [] then ''1'' else a, w')),
       ask_json = (\<lambda>prefix var_name prompts dflt. typed dflt (\<lambda>a. VDict True [(''typed'', VStr a)])),
       ask_nested = (\<lambda>prompt_text dflt. typed dflt VStr) \<rparr>"

text \<open>A schema with a private key, scalars, a list of choices and two deferred dictionaries.\<close>

definition schema_order :: items where
  "schema_order =
     [(''__prompts__'', VDict True [(''name'', VStr ''Project name'')]),
      (''settings'', VDict True [(''level'', VStr ''{{ cookiecutter.name }}'')]),
      (''_copy'', VList [VStr ''*.png'']),
      (''name'', VStr ''App''),
      (''db'', VDict True [(''__prompts__'', VDict True []), (''host'', VStr ''localhost'')]),
      (''kind'', VList [VStr ''lib'', VStr ''bin'']),
      (''__slug'', VStr ''{{ cookiecutter.name }}'')]"

definition context_order :: items where
  "context_order = [(''cookiecutter'', VDict True schema_order)]"

text \<open>
  The schema of one key, a choice between \<^verbatim>\<open>a\<close> and \<^verbatim>\<open>b\<close> with the nested field \<^verbatim>\<open>x\<close> and
  a given \<^verbatim>\<open>__conditional__\<close>.
\<close>

definition nested_x :: "val \<Rightarrow> val" where
  "nested_x condition = VDict True [(''x'', VInt 1), (''__conditional__'', condition)]"

definition choice_ab :: "val \<Rightarrow> val" where
  "choice_ab condition =
     VDict True
       [(''choices'', VDict True [(''a'', VDict True []), (''b'', VDict True [])]),
        (''_'', nested_x condition)]"

definition context_choice :: "string \<Rightarrow> val \<Rightarrow> items" where
  "context_choice key condition = [(''cookiecutter'', VDict True [(key, choice_ab condition)])]"

text \<open>A nested config that is resolved when the flavor is \<^verbatim>\<open>pg\<close>.\<close>

definition db_config :: items where
  "db_config =
     [(''__prompts__'', VDict True [(''host'', VStr ''Database host'')]),
      (''__conditional__'', VDict True [(''option'', VStr ''flavor''), (''value'', VStr ''pg'')]),
      (''host'', VStr ''localhost'')]"

definition context_db :: items where
  "context_db =
     [(''cookiecutter'', VDict True [(''flavor'', VStr ''pg''), (''db'', VDict True db_config)])]"

text \<open>A schema of one key, and a template that reads a name nothing defines.\<close>

definition context_one :: "string \<Rightarrow> val \<Rightarrow> items" where
  "context_one key raw = [(''cookiecutter'', VDict True [(key, raw)])]"

definition missing :: val where
  "missing = VStr ''{{ cookiecutter.missing }}''"

text \<open>
  What \<open>schema_order\<close> resolves to when the operator types \<^verbatim>\<open>Tool\<close>, \<^verbatim>\<open>2\<close>, an empty line
  and \<^verbatim>\<open>h\<close>.
\<close>

definition resolved_order :: items where
  "resolved_order =
     [(''_copy'', VList [VStr ''*.png'']), (''name'', VStr ''Tool''),
      (''kind'', VDict False [(''choice'', VStr ''bin'')]),
      (''__slug'', VStr ''Tool''),
      (''settings'', VDict False [(''level'', VStr ''Tool'')]),
      (''db'', VDict True [(''host'', VStr ''h'')])]"

text \<open>Paths that are absolute when they begin with a slash, joined with a slash.\<close>

definition posix_like :: pathlib where
  "posix_like =
     \<lparr> is_absolute = (\<lambda>p. take 1 p = ''/''),
       resolve_under = (\<lambda>repo_dir p. Inr (repo_dir @ ''/'' @ p)) \<rparr>"

text \<open>The two template options of the spec.\<close>

definition context_templates :: items where
  "context_templates =
     [(''cookiecutter'',
       VDict True
         [(''templates'',
           VDict True
             [(''default'', VDict True [(''path'', VStr ''tpl1'')]),
              (''alt'', VDict True [(''path'', VStr ''tpl2'')])])])]"

text \<open>A nested config with one field and no condition.\<close>

definition nested_host :: val where
  "nested_host = VDict True [(''__prompts__'', VDict True []), (''host'', VStr ''localhost'')]"

text \<open>What \<open>schema_order\<close> resolves to under no-input.\<close>

definition resolved_defaults :: items where
  "resolved_defaults =
     [(''_copy'', VList [VStr ''*.png'']), (''name'', VStr ''App''),
      (''kind'', VDict False [(''choice'', VStr ''lib'')]),
      (''__slug'', VStr ''App''),
      (''settings'', VDict False [(''level'', VStr ''App'')]),
      (''db'', VDict True [(''host'', VStr ''localhost'')])]"

section \<open>The variable renderer: lemmas\<close>

lemma render_list_Inr:
  "render_list env xs cd = Inr ys \<Longrightarrow> list_all2 (\<lambda>x y. render_variable env x cd = Inr y) xs ys"
  by (induction xs arbitrary: ys) (auto split: sum.splits)

lemma render_list_all2:
  "list_all2 (\<lambda>x y. render_variable env x cd = Inr y) xs ys \<Longrightarrow> render_list env xs cd = Inr ys"
  by (induction xs ys rule: list_all2_induct) auto

lemma render_items_Inr:
  "render_items env kvs cd acc = Inr r \<Longrightarrow>
     \<exists>kvs'. list_all2 (rendered_entry env cd) kvs kvs' \<and> r = dict_merge acc kvs'"
proof (induction kvs arbitrary: acc)
  case Nil
  then show ?case by (simp add: dict_merge_def)
next
  case (Cons kv kvs)
  obtain k x where kv: "kv = (k, x)" by (cases kv)
  from Cons.prems obtain k' y where
    k': "render_str env k cd = Inr k'" and y: "render_variable env x cd = Inr y"
    and rest: "render_items env kvs cd (dict_set k' y acc) = Inr r"
    by (auto simp: kv split: sum.splits)
  from Cons.IH [OF rest] obtain kvs' where
    a: "list_all2 (rendered_entry env cd) kvs kvs'" and r: "r = dict_merge (dict_set k' y acc) kvs'"
    by blast
  have "list_all2 (rendered_entry env cd) (kv # kvs) ((k', y) # kvs')"
    using a k' y by (simp add: kv rendered_entry_def)
  moreover have "r = dict_merge acc ((k', y) # kvs')"
    using r by (simp add: dict_merge_def)
  ultimately show ?case by blast
qed

lemma render_items_all2:
  "list_all2 (rendered_entry env cd) kvs kvs' \<Longrightarrow>
     render_items env kvs cd acc = Inr (dict_merge acc kvs')"
proof (induction kvs kvs' arbitrary: acc rule: list_all2_induct)
  case Nil
  then show ?case by (simp add: dict_merge_def)
next
  case (Cons kv kvs kv' kvs')
  obtain k x where kv: "kv = (k, x)" by (cases kv)
  obtain k' y where kv': "kv' = (k', y)" by (cases kv')
  from Cons.hyps(1) have "render_str env k cd = Inr k'" "render_variable env x cd = Inr y"
    by (auto simp: kv kv' rendered_entry_def split: sum.splits)
  then show ?case
    using Cons.IH [of "dict_set k' y acc"] by (simp add: kv kv' dict_merge_def)
qed

section \<open>The two passes: lemmas\<close>

lemma startswith_dunder: "startswith key ''__'' \<Longrightarrow> startswith key ''_''"
  by (cases key) (auto simp: startswith_def)

lemma private_or_dunder: "is_private key \<or> startswith key ''__'' \<longleftrightarrow> startswith key ''_''"
  using startswith_dunder by (auto simp: is_private_def)

lemma dict_set_new: "k \<notin> fst ` set d \<Longrightarrow> dict_set k v d = d @ [(k, v)]"
  by (simp add: dict_set_def)

lemma keys_dict_set: "fst ` set (dict_set k v d) = insert k (fst ` set d)"
  by (force simp: dict_set_def image_iff split: if_splits)

lemma wrap_undefined_Inr [simp]: "wrap_undefined key context r = Inr x \<longleftrightarrow> r = Inr x"
  by (cases "(key, context, r)" rule: wrap_undefined.cases) auto

lemma choice_with_nested_cd:
  assumes "choice_with_nested C env prompts no_input size' key choices nested st w = Inr (st', w')"
  shows "\<exists>v. fst st' = dict_set key v (fst st) \<and> snd st' = snd st + 1"
  using assms unfolding choice_with_nested_def Let_def
  by (auto split: sum.splits prod.splits val.splits if_splits)

lemma first_pass_try_cd:
  assumes "first_pass_try C env prompts no_input size' key raw st w = Some (Inr (st', w'))"
  shows "if is_dict raw then st' = st
         else (\<exists>v. fst st' = dict_set key v (fst st)) \<and> snd st' = snd st"
  using assms unfolding first_pass_try_def Let_def
  by (cases raw) (auto split: sum.splits prod.splits if_splits option.splits)

lemma first_pass_step_cd:
  assumes "first_pass_step C env context prompts no_input size' key raw st w = Some (Inr (st', w'))"
  shows "if written_in_first_pass key raw then \<exists>v. fst st' = dict_set key v (fst st)
         else fst st' = fst st"
proof -
  consider (p) "is_private key" | (d) "\<not> is_private key" "startswith key ''__''"
    | (c) "\<not> startswith key ''_''" "is_choice_with_nested raw"
    | (t) "\<not> startswith key ''_''" "\<not> is_choice_with_nested raw"
    using private_or_dunder by blast
  then show ?thesis
  proof cases
    case p
    then have "startswith key ''_''" by (simp add: is_private_def)
    with p assms show ?thesis
      by (auto simp: first_pass_step_def written_in_first_pass_def)
  next
    case d
    then have "startswith key ''_''" using startswith_dunder by blast
    with d assms show ?thesis
      by (auto simp: first_pass_step_def written_in_first_pass_def split: sum.splits)
  next
    case c
    then have np: "\<not> is_private key" "\<not> startswith key ''__''"
      using private_or_dunder by blast+
    from c obtain od kvs where raw: "raw = VDict od kvs"
      by (auto simp: is_choice_with_nested_def split: val.splits)
    from assms have "choice_with_nested C env prompts no_input size' key
        (dict_get kvs ''choices'' VNone) (dict_get kvs ''_'' VNone) st w = Inr (st', w')"
      using c np by (simp add: first_pass_step_def raw)
    from choice_with_nested_cd [OF this] show ?thesis
      using c by (auto simp: written_in_first_pass_def)
  next
    case t
    then have np: "\<not> is_private key" "\<not> startswith key ''__''"
      using private_or_dunder by blast+
    from assms have "first_pass_try C env prompts no_input size' key raw
        (fst st, if is_dict raw then snd st else snd st + 1) w = Some (Inr (st', w'))"
      using t np by (auto simp: first_pass_step_def)
    from first_pass_try_cd [OF this] show ?thesis
      using t by (auto simp: written_in_first_pass_def)
  qed
qed

lemma first_pass_append:
  "first_pass C env context prompts no_input size' (xs @ ys) st w =
     (case first_pass C env context prompts no_input size' xs st w of
        None \<Rightarrow> None
      | Some (Inl e) \<Rightarrow> Some (Inl e)
      | Some (Inr (st', w')) \<Rightarrow> first_pass C env context prompts no_input size' ys st' w')"
  by (induction xs arbitrary: st w) (auto split: option.splits sum.splits)

lemma second_pass_append:
  "second_pass C env context prompts no_input size' (xs @ ys) st w =
     (case second_pass C env context prompts no_input size' xs st w of
        Inl e \<Rightarrow> Inl e
      | Inr (st', w') \<Rightarrow> second_pass C env context prompts no_input size' ys st' w')"
  by (induction xs arbitrary: st w) (auto split: sum.splits)

lemma first_pass_cd:
  assumes "first_pass C env context prompts no_input size' xs st w = Some (Inr (st', w'))"
    and "distinct (map fst xs)"
    and "fst ` set xs \<inter> fst ` set (fst st) = {}"
  shows "\<exists>new. fst st' = fst st @ new
           \<and> map fst new = map fst (filter (\<lambda>(k, r). written_in_first_pass k r) xs)"
  using assms
proof (induction xs arbitrary: st w)
  case Nil
  then show ?case by simp
next
  case (Cons kr xs)
  obtain key raw where kr: "kr = (key, raw)" by (cases kr)
  from Cons.prems(1) obtain st1 w1 where
    step: "first_pass_step C env context prompts no_input size' key raw st w = Some (Inr (st1, w1))"
    and rest: "first_pass C env context prompts no_input size' xs st1 w1 = Some (Inr (st', w'))"
    by (auto simp: kr split: option.splits sum.splits)
  have fresh: "key \<notin> fst ` set (fst st)"
    using Cons.prems(3) by (auto simp: kr)
  have cd1: "fst st1 = fst st @ (if written_in_first_pass key raw then [(key, SOME v. fst st1 = fst st @ [(key, v)])] else [])"
  proof (cases "written_in_first_pass key raw")
    case True
    with first_pass_step_cd [OF step] obtain v where "fst st1 = dict_set key v (fst st)" by auto
    then have "fst st1 = fst st @ [(key, v)]" using fresh by (simp add: dict_set_new)
    then have "fst st1 = fst st @ [(key, SOME v. fst st1 = fst st @ [(key, v)])]"
      by (rule someI [where P = "\<lambda>v. fst st1 = fst st @ [(key, v)]"])
    with True show ?thesis by simp
  next
    case False
    with first_pass_step_cd [OF step] show ?thesis by simp
  qed
  have keys1: "fst ` set (fst st1) \<subseteq> insert key (fst ` set (fst st))"
    by (subst cd1) auto
  have disj: "fst ` set xs \<inter> fst ` set (fst st1) = {}"
  proof -
    have "key \<notin> fst ` set xs" using Cons.prems(2) by (force simp: kr)
    moreover have "fst ` set xs \<inter> fst ` set (fst st) = {}" using Cons.prems(3) by (auto simp: kr)
    ultimately show ?thesis using keys1 by blast
  qed
  from Cons.IH [OF rest _ disj] Cons.prems(2) obtain new where
    new: "fst st' = fst st1 @ new"
      "map fst new = map fst (filter (\<lambda>(k, r). written_in_first_pass k r) xs)"
    by auto
  show ?case
  proof (cases "written_in_first_pass key raw")
    case True
    then obtain v where "fst st1 = fst st @ [(key, v)]" using cd1 by auto
    then have "fst st' = fst st @ ((key, v) # new)" using new(1) by simp
    moreover have "map fst ((key, v) # new) =
        map fst (filter (\<lambda>(k, r). written_in_first_pass k r) (kr # xs))"
      using True new(2) by (simp add: kr)
    ultimately show ?thesis by blast
  next
    case False
    then have "fst st1 = fst st" using cd1 by simp
    then show ?thesis using new False by (auto simp: kr)
  qed
qed

lemma second_pass_try_cd:
  assumes "second_pass_try C env prompts no_input size' key raw st w = Inr (st', w')"
  shows "if is_dict raw then \<exists>v. fst st' = dict_set key v (fst st) else st' = st"
  using assms unfolding second_pass_try_def Let_def
  by (cases raw) (auto split: sum.splits prod.splits if_splits val.splits)

lemma second_pass_step_cd:
  assumes "second_pass_step C env context prompts no_input size' key raw st w = Inr (st', w')"
  shows "if written_in_second_pass (fst st) key raw then \<exists>v. fst st' = fst st @ [(key, v)]
         else fst st' = fst st"
proof (cases "key \<in> fst ` set (fst st) \<or> is_private key")
  case True
  with assms show ?thesis
    by (auto simp: second_pass_step_def written_in_second_pass_def split: if_splits)
next
  case False
  with assms have "second_pass_try C env prompts no_input size' key raw st w = Inr (st', w')"
    by (simp add: second_pass_step_def)
  from second_pass_try_cd [OF this] False show ?thesis
    by (auto simp: written_in_second_pass_def dict_set_new)
qed

lemma second_pass_cd:
  assumes "second_pass C env context prompts no_input size' xs st w = Inr (st', w')"
    and "distinct (map fst xs)"
  shows "\<exists>new. fst st' = fst st @ new
           \<and> map fst new = map fst (filter (\<lambda>(k, r). written_in_second_pass (fst st) k r) xs)"
  using assms
proof (induction xs arbitrary: st w)
  case Nil
  then show ?case by simp
next
  case (Cons kr xs)
  obtain key raw where kr: "kr = (key, raw)" by (cases kr)
  from Cons.prems(1) obtain st1 w1 where
    step: "second_pass_step C env context prompts no_input size' key raw st w = Inr (st1, w1)"
    and rest: "second_pass C env context prompts no_input size' xs st1 w1 = Inr (st', w')"
    by (auto simp: kr split: sum.splits)
  from Cons.IH [OF rest] Cons.prems(2) obtain new where
    new: "fst st' = fst st1 @ new"
      "map fst new = map fst (filter (\<lambda>(k, r). written_in_second_pass (fst st1) k r) xs)"
    by auto
  have notin: "key \<notin> fst ` set xs" using Cons.prems(2) by (auto simp: kr)
  have same: "filter (\<lambda>(k, r). written_in_second_pass (fst st1) k r) xs =
              filter (\<lambda>(k, r). written_in_second_pass (fst st) k r) xs"
  proof (rule filter_cong [OF refl])
    fix x assume x: "x \<in> set xs"
    obtain k r where kr': "x = (k, r)" by (cases x)
    have "k \<noteq> key" using x notin by (force simp: kr')
    moreover have "fst ` set (fst st1) = fst ` set (fst st) \<or>
                   fst ` set (fst st1) = insert key (fst ` set (fst st))"
      using second_pass_step_cd [OF step] by (auto split: if_splits)
    ultimately show "(case x of (k, r) \<Rightarrow> written_in_second_pass (fst st1) k r) =
                     (case x of (k, r) \<Rightarrow> written_in_second_pass (fst st) k r)"
      by (auto simp: kr' written_in_second_pass_def)
  qed
  show ?case
  proof (cases "written_in_second_pass (fst st) key raw")
    case True
    with second_pass_step_cd [OF step] obtain v where "fst st1 = fst st @ [(key, v)]" by auto
    then have "fst st' = fst st @ ((key, v) # new)" using new(1) by simp
    moreover have "map fst ((key, v) # new) =
        map fst (filter (\<lambda>(k, r). written_in_second_pass (fst st) k r) (kr # xs))"
      using True new(2) same by (simp add: kr)
    ultimately show ?thesis by blast
  next
    case False
    with second_pass_step_cd [OF step] have "fst st1 = fst st" by simp
    then show ?thesis using new False same by (auto simp: kr)
  qed
qed

lemma map_of_dict_set_same: "map_of (dict_set k v d) k = Some v"
proof (cases "k \<in> fst ` set d")
  case True
  then have "map_of (map (\<lambda>(k', v'). if k' = k then (k', v) else (k', v')) d) k = Some v"
  proof (induction d)
    case Nil
    then show ?case by simp
  next
    case (Cons a d)
    obtain a1 a2 where a: "a = (a1, a2)" by (cases a)
    show ?case
    proof (cases "a1 = k")
      case True
      then show ?thesis by (simp add: a)
    next
      case False
      with Cons.prems have "k \<in> fst ` set d" by (simp add: a)
      from Cons.IH [OF this] False show ?thesis by (simp add: a)
    qed
  qed
  with True show ?thesis by (simp add: dict_set_def)
next
  case False
  then have "map_of d k = None" by (simp add: map_of_eq_None_iff)
  with False show ?thesis by (simp add: dict_set_def map_add_def)
qed

lemma map_of_dict_set_other: "k' \<noteq> k \<Longrightarrow> map_of (dict_set k v d) k' = map_of d k'"
proof (cases "k \<in> fst ` set d")
  case True
  assume "k' \<noteq> k"
  then have "map_of (map (\<lambda>(a, b). if a = k then (a, v) else (a, b)) d) k' = map_of d k'"
    by (induction d) auto
  with True show ?thesis by (simp add: dict_set_def)
next
  case False
  assume "k' \<noteq> k"
  with False show ?thesis by (simp add: dict_set_def map_add_def split: option.splits)
qed

lemma keys_order_dict_set_present: "k \<in> fst ` set d \<Longrightarrow> map fst (dict_set k v d) = map fst d"
  by (induction d) (auto simp: dict_set_def)

lemma pop_prompts_schema:
  assumes "pop_prompts context = Inr (prompts, context')"
  shows "schema_items context' = dict_del ''__prompts__'' (schema_items context)"
  using assms
  by (auto simp: pop_prompts_def schema_items_def map_of_dict_set_same
           split: option.splits val.splits)

lemma distinct_dict_del: "distinct (map fst d) \<Longrightarrow> distinct (map fst (dict_del k d))"
  by (simp add: dict_del_def distinct_map_filter)

lemma prompt_for_config_runs:
  assumes "prompt_for_config mk C context no_input w = Some (context', Inr (result, w'))"
  obtains env prompts st1 w1 count where
    "mk context = Inr env" "pop_prompts context = Inr (prompts, context')"
    "first_pass C env context' prompts no_input (length (visible_prompts (schema_items context')))
       (schema_items context') ([], 0) w = Some (Inr (st1, w1))"
    "second_pass C env context' prompts no_input (length (visible_prompts (schema_items context')))
       (schema_items context') st1 w1 = Inr ((result, count), w')"
  using assms unfolding prompt_for_config_def resolve_passes_def Let_def
  by (auto split: sum.splits option.splits prod.splits)

lemma second_filter_is_deferred:
  assumes dist: "distinct (map fst S)"
    and keys: "map fst cd = map fst (filter (\<lambda>(k, r). written_in_first_pass k r) S)"
  shows "filter (\<lambda>(k, r). written_in_second_pass cd k r) S =
         filter (\<lambda>(k, r). \<not> written_in_first_pass k r) S"
proof (rule filter_cong [OF refl])
  fix x assume x: "x \<in> set S"
  obtain k r where kr: "x = (k, r)" by (cases x)
  have "k \<in> fst ` set cd \<longleftrightarrow> written_in_first_pass k r"
  proof
    assume "k \<in> fst ` set cd"
    then have "k \<in> set (map fst (filter (\<lambda>(k, r). written_in_first_pass k r) S))"
      using keys by (metis set_map)
    then obtain r' where r': "(k, r') \<in> set S" "written_in_first_pass k r'" by auto
    have "r' = r"
      using dist r'(1) x kr by (meson eq_key_imp_eq_value)
    with r' show "written_in_first_pass k r" by simp
  next
    assume "written_in_first_pass k r"
    then have "k \<in> set (map fst (filter (\<lambda>(k, r). written_in_first_pass k r) S))"
      using x kr by force
    then show "k \<in> fst ` set cd" using keys by (metis set_map)
  qed
  moreover have "\<not> written_in_first_pass k r \<Longrightarrow> \<not> is_private k \<and> is_dict r"
    by (auto simp: written_in_first_pass_def is_private_def)
  ultimately show "(case x of (k, r) \<Rightarrow> written_in_second_pass cd k r) =
                   (case x of (k, r) \<Rightarrow> \<not> written_in_first_pass k r)"
    by (auto simp: kr written_in_second_pass_def)
qed

section \<open>One iteration inside a run that returns\<close>

lemma map_of_written:
  "key \<notin> fst ` set a \<Longrightarrow> map_of ((a @ [(key, v)]) @ later) key = Some v"
proof -
  assume "key \<notin> fst ` set a"
  then have "map_of a key = None" by (simp add: map_of_eq_None_iff)
  then show ?thesis by (simp add: map_add_def)
qed

lemma first_pass_keys_subset:
  assumes "first_pass C env context prompts no_input size' xs ([], 0) w = Some (Inr (st, w1))"
    and "distinct (map fst xs)"
  shows "fst ` set (fst st) \<subseteq> fst ` set xs"
proof -
  from first_pass_cd [OF assms(1,2)] obtain new where
    new: "fst st = new" "map fst new = map fst (filter (\<lambda>(k, r). written_in_first_pass k r) xs)"
    by auto
  have "fst ` set (fst st) = set (map fst (fst st))" by simp
  also have "\<dots> \<subseteq> set (map fst xs)" using new by auto
  finally show ?thesis by simp
qed

text \<open>The iteration of the first loop at a key, in a run that returns.\<close>

lemma first_pass_at:
  assumes run: "prompt_for_config mk C context no_input w = Some (context', Inr (result, w'))"
    and env: "mk context = Inr env"
    and pop: "pop_prompts context = Inr (prompts, context')"
    and dist: "distinct (map fst (schema_items context))"
    and split: "schema_items context' = pre @ (key, raw) # post"
    and before: "first_pass C env context' prompts no_input
                   (length (visible_prompts (schema_items context'))) pre ([], 0) w
                 = Some (Inr (st, w1))"
  obtains st' w2 later where
    "first_pass_step C env context' prompts no_input
       (length (visible_prompts (schema_items context'))) key raw st w1 = Some (Inr (st', w2))"
    "result = fst st' @ later"
    "key \<notin> fst ` set (fst st)"
proof -
  let ?S = "schema_items context'"
  let ?n = "length (visible_prompts ?S)"
  from run obtain env' prompts' st1 wa count where
    env': "mk context = Inr env'" and pop': "pop_prompts context = Inr (prompts', context')"
    and p1: "first_pass C env' context' prompts' no_input ?n ?S ([], 0) w = Some (Inr (st1, wa))"
    and p2: "second_pass C env' context' prompts' no_input ?n ?S st1 wa = Inr ((result, count), w')"
    by (rule prompt_for_config_runs)
  have eq: "env' = env" "prompts' = prompts" using env env' pop pop' by auto
  have distS: "distinct (map fst ?S)"
    using dist pop_prompts_schema [OF pop] by (simp add: distinct_dict_del)
  from p1 before obtain st' w2 where
    step: "first_pass_step C env context' prompts no_input ?n key raw st w1 = Some (Inr (st', w2))"
    and rest: "first_pass C env context' prompts no_input ?n post st' w2 = Some (Inr (st1, wa))"
    unfolding eq split first_pass_append
    by (auto split: option.splits sum.splits)
  have pre1: "first_pass C env context' prompts no_input ?n (pre @ [(key, raw)]) ([], 0) w
      = Some (Inr (st', w2))"
    using before step by (simp add: first_pass_append)
  have d1: "distinct (map fst (pre @ [(key, raw)]))" and dpre: "distinct (map fst pre)"
    and dpost: "distinct (map fst post)"
    and disj: "fst ` set post \<inter> fst ` set (pre @ [(key, raw)]) = {}"
    and knew: "key \<notin> fst ` set pre"
    using distS unfolding split by auto
  have fresh: "key \<notin> fst ` set (fst st)"
    using first_pass_keys_subset [OF before dpre] knew by blast
  have "fst ` set (fst st') \<subseteq> fst ` set (pre @ [(key, raw)])"
    by (rule first_pass_keys_subset [OF pre1 d1])
  with disj have "fst ` set post \<inter> fst ` set (fst st') = {}" by blast
  from first_pass_cd [OF rest dpost this] obtain b where b: "fst st1 = fst st' @ b" by auto
  from second_pass_cd [OF p2 distS] obtain c where "result = fst st1 @ c" by auto
  with b have "result = fst st' @ (b @ c)" by simp
  with step fresh show ?thesis using that by blast
qed

text \<open>The iteration of the second loop at a key, in a run that returns.\<close>

lemma second_pass_at:
  assumes run: "prompt_for_config mk C context no_input w = Some (context', Inr (result, w'))"
    and env: "mk context = Inr env"
    and pop: "pop_prompts context = Inr (prompts, context')"
    and dist: "distinct (map fst (schema_items context))"
    and split: "schema_items context' = pre @ (key, raw) # post"
    and first: "first_pass C env context' prompts no_input
                   (length (visible_prompts (schema_items context')))
                   (schema_items context') ([], 0) w
                 = Some (Inr (st1, w1))"
    and before: "second_pass C env context' prompts no_input
                   (length (visible_prompts (schema_items context'))) pre st1 w1
                 = Inr (st, w2)"
  obtains st' w3 later where
    "second_pass_step C env context' prompts no_input
       (length (visible_prompts (schema_items context'))) key raw st w2 = Inr (st', w3)"
    "result = fst st' @ later"
proof -
  let ?S = "schema_items context'"
  let ?n = "length (visible_prompts ?S)"
  from run obtain env' prompts' st1' wa count where
    env': "mk context = Inr env'" and pop': "pop_prompts context = Inr (prompts', context')"
    and p1: "first_pass C env' context' prompts' no_input ?n ?S ([], 0) w = Some (Inr (st1', wa))"
    and p2: "second_pass C env' context' prompts' no_input ?n ?S st1' wa = Inr ((result, count), w')"
    by (rule prompt_for_config_runs)
  have eq: "env' = env" "prompts' = prompts" using env env' pop pop' by auto
  have eq1: "st1' = st1" "wa = w1" using p1 first unfolding eq by auto
  have distS: "distinct (map fst ?S)"
    using dist pop_prompts_schema [OF pop] by (simp add: distinct_dict_del)
  have p2': "second_pass C env context' prompts no_input ?n (pre @ (key, raw) # post) st1 w1
      = Inr ((result, count), w')"
    using p2 unfolding eq eq1 split .
  from p2' before obtain st' w3 where
    step: "second_pass_step C env context' prompts no_input ?n key raw st w2 = Inr (st', w3)"
    and rest: "second_pass C env context' prompts no_input ?n post st' w3 = Inr ((result, count), w')"
    unfolding second_pass_append
    by (auto split: sum.splits)
  have "distinct (map fst post)" using distS unfolding split by auto
  from second_pass_cd [OF rest this] obtain c where "result = fst st' @ c" by auto
  with step show ?thesis using that by blast
qed


section \<open>No-input mode asks nothing\<close>

lemma at_terminal_simps [simp]:
  "at_terminal w (Inl e) = Inl e"
  "at_terminal w (Inr (a, u)) = Inr (a, w)"
  by (simp_all add: at_terminal_def)

lemma nested_fields_no_input:
  "nested_fields C prompts_nested True nested_prefix flds result w =
     at_terminal w (nested_fields silent prompts_nested True nested_prefix flds result ())"
proof (induction "size (VDict True flds)" arbitrary: flds result prompts_nested nested_prefix
       rule: less_induct)
  case less
  show ?case
  proof (cases flds)
    case Nil
    then show ?thesis by simp
  next
    case (Cons kv rest)
    obtain key v where kv: "kv = (key, v)" by (cases kv)
    have rest: "nested_fields C prompts_nested True nested_prefix rest r w =
        at_terminal w (nested_fields silent prompts_nested True nested_prefix rest r ())" for r
      by (rule less) (simp add: Cons)
    show ?thesis
    proof (cases "reserved key")
      case True
      then show ?thesis by (simp add: Cons kv rest)
    next
      case nr: False
      show ?thesis
      proof (cases prompts_nested)
        case (VDict pod ps)
        show ?thesis
        proof (cases "\<exists>od kvs. v = VDict od kvs \<and> ''__prompts__'' \<in> fst ` set kvs")
          case True
          then obtain od kvs where v: "v = VDict od kvs" and m: "''__prompts__'' \<in> fst ` set kvs"
            by blast
          have inner: "prompt_for_nested_config C key kvs True nested_prefix w =
              at_terminal w (prompt_for_nested_config silent key kvs True nested_prefix ())"
            unfolding prompt_for_nested_config.simps
            by (rule less) (simp add: Cons kv v)
          show ?thesis
          proof (cases "prompt_for_nested_config silent key kvs True nested_prefix ()")
            case (Inl e)
            with inner nr VDict v m show ?thesis by (simp add: Cons kv)
          next
            case (Inr p)
            obtain r where p: "p = (r, ())" by (cases p) auto
            have l: "prompt_for_nested_config C key kvs True nested_prefix w = Inr (r, w)"
              using inner Inr p by simp
            show ?thesis
              using nr VDict v m l Inr p rest [of "dict_set key (VDict True r) result"]
              by (simp add: Cons kv)
          qed
        next
          case False
          then show ?thesis
            using nr VDict rest [of "dict_set key v result"]
            by (cases v) (auto simp: Let_def Cons kv)
        qed
      qed (use nr in \<open>simp_all add: Cons kv\<close>)
    qed
  qed
qed

lemma prompt_for_nested_config_no_input:
  "prompt_for_nested_config C parent_key nested_config True prefix w =
     at_terminal w (prompt_for_nested_config silent parent_key nested_config True prefix ())"
  by (simp add: nested_fields_no_input [where C = C])

lemma wrap_undefined_at_terminal:
  "wrap_undefined key context (at_terminal w r) = at_terminal w (wrap_undefined key context r)"
  by (cases "(key, context, r)" rule: wrap_undefined.cases) (auto simp: at_terminal_def)

lemma prompt_choice_for_config_no_input:
  "prompt_choice_for_config C cd env key options True prompts prefix w =
     at_terminal w (prompt_choice_for_config silent cd env key options True prompts' prefix' ())"
  by (auto simp: prompt_choice_for_config_def split: sum.splits list.splits)

lemma choice_with_nested_no_input:
  "choice_with_nested C env prompts True n key choices nested st w =
     at_terminal w (choice_with_nested silent env prompts' True n key choices nested st ())"
proof -
  have c: "prompt_choice_for_config C (fst st) env key choices True prompts
             (prefix_local (snd st + 1) n) w =
           at_terminal w (prompt_choice_for_config silent (fst st) env key choices True prompts'
             (prefix_local (snd st + 1) n) ())"
    by (rule prompt_choice_for_config_no_input)
  show ?thesis
  proof (cases "prompt_choice_for_config silent (fst st) env key choices True prompts'
             (prefix_local (snd st + 1) n) ()")
    case (Inl e)
    with c show ?thesis by (simp add: choice_with_nested_def)
  next
    case (Inr p)
    obtain v where p: "p = (v, ())" by (cases p) auto
    with c Inr show ?thesis
      by (cases nested) (simp_all add: choice_with_nested_def Let_def)
  qed
qed

lemma first_pass_try_no_input:
  "first_pass_try C env prompts True n key raw st w =
     map_option (at_terminal w) (first_pass_try silent env prompts' True n key raw st ())"
  "first_pass_try silent env prompts' True n key raw st () \<noteq> None"
proof -
  have c: "prompt_choice_for_config C (fst st) env key raw True prompts (prefix_local (snd st) n) w =
           at_terminal w (prompt_choice_for_config silent (fst st) env key raw True prompts'
             (prefix_local (snd st) n) ())"
    by (rule prompt_choice_for_config_no_input)
  show "first_pass_try C env prompts True n key raw st w =
     map_option (at_terminal w) (first_pass_try silent env prompts' True n key raw st ())"
  proof (cases raw)
    case (VList xs)
    show ?thesis
    proof (cases "prompt_choice_for_config silent (fst st) env key raw True prompts'
             (prefix_local (snd st) n) ()")
      case (Inl e)
      with c show ?thesis by (simp add: first_pass_try_def VList)
    next
      case (Inr p)
      obtain v where p: "p = (v, ())" by (cases p) auto
      with c Inr show ?thesis by (simp add: first_pass_try_def VList)
    qed
  qed (auto simp: first_pass_try_def Let_def split: sum.splits)
  show "first_pass_try silent env prompts' True n key raw st () \<noteq> None"
    by (cases raw) (auto simp: first_pass_try_def Let_def split: sum.splits)
qed

lemma first_pass_step_no_input:
  "first_pass_step C env context prompts True n key raw st w =
     map_option (at_terminal w) (first_pass_step silent env context prompts' True n key raw st ())"
  "first_pass_step silent env context prompts' True n key raw st () \<noteq> None"
proof -
  let ?st = "(fst st, if is_dict raw then snd st else snd st + 1)"
  show "first_pass_step C env context prompts True n key raw st w =
     map_option (at_terminal w) (first_pass_step silent env context prompts' True n key raw st ())"
    using first_pass_try_no_input(1) [of C env prompts n key raw "?st" w prompts']
      choice_with_nested_no_input [of C env prompts n key _ _ st w prompts']
    by (cases raw)
       (auto simp: first_pass_step_def option.map_comp comp_def wrap_undefined_at_terminal
             split: sum.splits)
  show "first_pass_step silent env context prompts' True n key raw st () \<noteq> None"
    using first_pass_try_no_input(2) [of env prompts' n key raw "?st"]
    by (cases raw) (auto simp: first_pass_step_def)
qed

lemma first_pass_no_input:
  "first_pass C env context prompts True n xs st w =
     map_option (at_terminal w) (first_pass silent env context prompts' True n xs st ())
   \<and> first_pass silent env context prompts' True n xs st () \<noteq> None"
proof (induction xs arbitrary: st)
  case Nil
  then show ?case by simp
next
  case (Cons kr xs)
  obtain key raw where kr: "kr = (key, raw)" by (cases kr)
  note s = first_pass_step_no_input(1) [of C env "context" prompts n key raw st w prompts']
    first_pass_step_no_input(2) [of env "context" prompts' n key raw st]
  from s(2) obtain r where r: "first_pass_step silent env context prompts' True n key raw st () = Some r"
    by blast
  show ?case
  proof (cases r)
    case (Inl e)
    with s(1) r show ?thesis by (simp add: kr)
  next
    case (Inr p)
    obtain st' where p: "p = (st', ())" by (cases p) auto
    with s(1) r Inr Cons.IH [of st'] show ?thesis by (simp add: kr)
  qed
qed

lemma second_pass_try_no_input:
  "second_pass_try C env prompts True n key raw st w =
     at_terminal w (second_pass_try silent env prompts' True n key raw st ())"
proof (cases raw)
  case (VDict od kvs)
  note n = prompt_for_nested_config_no_input [of C key kvs "[]" w]
  show ?thesis
  proof (cases "prompt_for_nested_config silent key kvs True [] ()")
    case (Inl e)
    with n show ?thesis
      by (auto simp: second_pass_try_def Let_def VDict split: sum.splits val.splits)
  next
    case (Inr p)
    obtain r where p: "p = (r, ())" by (cases p) auto
    with n Inr show ?thesis
      by (auto simp: second_pass_try_def Let_def VDict split: sum.splits val.splits)
  qed
qed (simp_all add: second_pass_try_def)

lemma second_pass_step_no_input:
  "second_pass_step C env context prompts True n key raw st w =
     at_terminal w (second_pass_step silent env context prompts' True n key raw st ())"
  using second_pass_try_no_input [of C env prompts n key raw st w prompts']
  by (simp add: second_pass_step_def wrap_undefined_at_terminal)

lemma second_pass_no_input:
  "second_pass C env context prompts True n xs st w =
     at_terminal w (second_pass silent env context prompts' True n xs st ())"
proof (induction xs arbitrary: st)
  case Nil
  then show ?case by simp
next
  case (Cons kr xs)
  obtain key raw where kr: "kr = (key, raw)" by (cases kr)
  note s = second_pass_step_no_input [of C env "context" prompts n key raw st w prompts']
  show ?case
  proof (cases "second_pass_step silent env context prompts' True n key raw st ()")
    case (Inl e)
    with s show ?thesis by (simp add: kr)
  next
    case (Inr p)
    obtain st' where p: "p = (st', ())" by (cases p) auto
    with s Inr Cons.IH [of st'] show ?thesis by (simp add: kr)
  qed
qed

lemma resolve_passes_no_input:
  "\<exists>out. resolve_passes C env context prompts True w = Some (at_terminal w out)
        \<and> resolve_passes silent env context prompts' True () = Some out"
proof -
  let ?S = "schema_items context"
  let ?n = "length (visible_prompts ?S)"
  note f = first_pass_no_input [of C env "context" prompts ?n ?S "([], 0)" w prompts']
  from f obtain r where r: "first_pass silent env context prompts' True ?n ?S ([], 0) () = Some r"
    by blast
  show ?thesis
  proof (cases r)
    case (Inl e)
    with f r show ?thesis by (simp add: resolve_passes_def Let_def)
  next
    case (Inr p)
    obtain st' where p: "p = (st', ())" by (cases p) auto
    with f r Inr second_pass_no_input [of C env "context" prompts ?n ?S st' w prompts']
    show ?thesis by (simp add: resolve_passes_def Let_def)
  qed
qed

lemma dict_set_twice: "dict_set k v (dict_set k v' d) = dict_set k v d"
proof (cases "k \<in> fst ` set d")
  case True
  then have "k \<in> fst ` set (map (\<lambda>(k', b). if k' = k then (k', v') else (k', b)) d)"
    by (force simp: image_iff)
  with True show ?thesis
    by (auto simp: dict_set_def intro!: map_idI split: prod.splits)
next
  case False
  then have "map (\<lambda>(k', b). if k' = k then (k', v) else (k', b)) d = d"
    by (auto intro!: map_idI simp: image_iff)
  with False show ?thesis by (simp add: dict_set_def)
qed

lemma dict_del_twice: "dict_del k (dict_del k d) = dict_del k d"
  by (simp add: dict_del_def)

lemma dict_get_dict_del: "dict_get (dict_del k d) k dflt = dflt"
proof -
  have "k \<notin> fst ` set (dict_del k d)" by (auto simp: dict_del_def)
  then have "map_of (dict_del k d) k = None" by (simp add: map_of_eq_None_iff)
  then show ?thesis by (simp add: dict_get_def)
qed

lemma pop_prompts_again:
  assumes "pop_prompts context = Inr (prompts, context')"
  shows "pop_prompts context' = Inr (VDict False [], context')"
  using assms
  by (auto simp: pop_prompts_def map_of_dict_set_same dict_get_dict_del dict_del_twice
        dict_set_twice split: option.splits val.splits)

lemma no_input_via_silent:
  "\<exists>context' out.
     prompt_for_config mk silent context True () = Some (context', map_sum id (\<lambda>cd. (cd, ())) out)
     \<and> prompt_for_config mk C context True w = Some (context', map_sum id (\<lambda>cd. (cd, w)) out)
     \<and> (mk context' = mk context \<longrightarrow>
          prompt_for_config mk C context' True w = Some (context', map_sum id (\<lambda>cd. (cd, w)) out))"
proof (cases "mk context")
  case (Inl e)
  then show ?thesis
    by (intro exI [of _ "context"] exI [of _ "Inl e"]) (simp add: prompt_for_config_def)
next
  case env: (Inr env)
  show ?thesis
  proof (cases "pop_prompts context")
    case (Inl e)
    with env show ?thesis
      by (intro exI [of _ "context"] exI [of _ "Inl e"]) (simp add: prompt_for_config_def)
  next
    case (Inr p)
    obtain prompts context' where p: "p = (prompts, context')" by (cases p)
    have pop: "pop_prompts context = Inr (prompts, context')" using Inr p by simp
    have pop': "pop_prompts context' = Inr (VDict False [], context')"
      by (rule pop_prompts_again [OF pop])
    obtain r where r: "resolve_passes silent env context' prompts True () = Some r"
      using resolve_passes_no_input [of silent env context' prompts "()" prompts] by blast
    have run: "resolve_passes C env context' ps True w = Some (at_terminal w r)" for ps
      using resolve_passes_no_input [of C env context' ps w prompts] r by auto
    define out where "out = map_sum id (\<lambda>p. fst (fst p)) r"
    have shape: "(case Some (at_terminal u r) of
              None \<Rightarrow> None
            | Some (Inl e) \<Rightarrow> Some (context', Inl e)
            | Some (Inr ((cookiecutter_dict, count), w')) \<Rightarrow>
                Some (context', Inr (cookiecutter_dict, w')))
          = Some (context', map_sum id (\<lambda>cd. (cd, u)) out)" for u :: 'c
      by (cases r) (auto simp: out_def)
    have shape': "(case Some r of
              None \<Rightarrow> None
            | Some (Inl e) \<Rightarrow> Some (context', Inl e)
            | Some (Inr ((cookiecutter_dict, count), w')) \<Rightarrow>
                Some (context', Inr (cookiecutter_dict, w')))
          = Some (context', map_sum id (\<lambda>cd. (cd, ())) out)"
      by (cases r) (auto simp: out_def)
    have s: "prompt_for_config mk silent context True () = Some (context', map_sum id (\<lambda>cd. (cd, ())) out)"
      using env pop r shape' by (simp add: prompt_for_config_def)
    have a: "prompt_for_config mk C context True w = Some (context', map_sum id (\<lambda>cd. (cd, w)) out)"
      using env pop run [of prompts] shape [of w] by (simp add: prompt_for_config_def)
    have b: "prompt_for_config mk C context' True w = Some (context', map_sum id (\<lambda>cd. (cd, w)) out)"
      if "mk context' = mk context"
      using that env pop' run [of "VDict False []"] shape [of w]
      by (simp add: prompt_for_config_def)
    from s a b show ?thesis by blast
  qed
qed

section \<open>The popped prompts and the template selector: lemmas\<close>

lemma map_of_dict_del_other: "k' \<noteq> k \<Longrightarrow> map_of (dict_del k d) k' = map_of d k'"
  by (induction d) (auto simp: dict_del_def)

lemma pop_prompts_of_schema:
  assumes "map_of context ''cookiecutter'' = Some (VDict od schema)"
  shows "pop_prompts context =
           Inr (dict_get schema ''__prompts__'' (VDict False []),
                dict_set ''cookiecutter'' (VDict od (dict_del ''__prompts__'' schema)) context)"
  using assms by (simp add: pop_prompts_def)

lemma prompts_from_options_dicts:
  "\<forall>(k, v) \<in> set kvs. is_dict v \<Longrightarrow> \<exists>p. prompts_from_options C kvs acc = Inr p"
proof (induction kvs arbitrary: acc)
  case Nil
  then show ?case by simp
next
  case (Cons kv kvs)
  obtain k v where kv: "kv = (k, v)" by (cases kv)
  with Cons.prems obtain od ov where v: "v = VDict od ov" by (cases v) auto
  from Cons.prems have "\<forall>(k, v) \<in> set kvs. is_dict v" by simp
  from Cons.IH [OF this] show ?case by (simp add: kv v Let_def)
qed

lemma subset_step: "A \<subseteq> X \<union> B \<Longrightarrow> B \<subseteq> insert k C \<Longrightarrow> A \<subseteq> insert k X \<union> C"
  by blast

lemma subset_both: "A \<subseteq> S \<Longrightarrow> B \<subseteq> S \<union> A \<Longrightarrow> B \<subseteq> S"
  by blast

lemma first_pass_step_keys:
  assumes "first_pass_step C env context prompts no_input n key raw st w = Some (Inr (st', w'))"
  shows "fst ` set (fst st') \<subseteq> insert key (fst ` set (fst st))"
proof (cases "written_in_first_pass key raw")
  case True
  with first_pass_step_cd [OF assms] obtain v where "fst st' = dict_set key v (fst st)" by auto
  then have "fst ` set (fst st') = insert key (fst ` set (fst st))"
    by (simp only: keys_dict_set)
  then show ?thesis by simp
next
  case False
  with first_pass_step_cd [OF assms] have "fst st' = fst st" by simp
  then show ?thesis by auto
qed

lemma first_pass_keys:
  assumes "first_pass C env context prompts no_input n xs st w = Some (Inr (st', w'))"
  shows "fst ` set (fst st') \<subseteq> fst ` set xs \<union> fst ` set (fst st)"
  using assms
proof (induction xs arbitrary: st w)
  case Nil
  then show ?case by simp
next
  case (Cons kr xs)
  obtain key raw where kr: "kr = (key, raw)" by (cases kr)
  from Cons.prems obtain st1 w1 where
    step: "first_pass_step C env context prompts no_input n key raw st w = Some (Inr (st1, w1))"
    and rest: "first_pass C env context prompts no_input n xs st1 w1 = Some (Inr (st', w'))"
    by (auto simp: kr split: option.splits sum.splits)
  have k: "fst ` set (kr # xs) = insert key (fst ` set xs)" by (simp add: kr)
  show ?case
    unfolding k by (rule subset_step [OF Cons.IH [OF rest] first_pass_step_keys [OF step]])
qed

lemma second_pass_keys:
  assumes "second_pass C env context prompts no_input n xs st w = Inr (st', w')"
  shows "fst ` set (fst st') \<subseteq> fst ` set xs \<union> fst ` set (fst st)"
  using assms
proof (induction xs arbitrary: st w)
  case Nil
  then show ?case by simp
next
  case (Cons kr xs)
  obtain key raw where kr: "kr = (key, raw)" by (cases kr)
  from Cons.prems obtain st1 w1 where
    step: "second_pass_step C env context prompts no_input n key raw st w = Inr (st1, w1)"
    and rest: "second_pass C env context prompts no_input n xs st1 w1 = Inr (st', w')"
    by (auto simp: kr split: sum.splits)
  have "fst st1 = fst st \<or> (\<exists>v. fst st1 = fst st @ [(key, v)])"
    using second_pass_step_cd [OF step] by (auto split: if_splits)
  then have "fst ` set (fst st1) \<subseteq> insert key (fst ` set (fst st))"
  proof
    assume "fst st1 = fst st"
    then show ?thesis by (simp add: subset_insertI)
  next
    assume "\<exists>v. fst st1 = fst st @ [(key, v)]"
    then obtain v where "fst st1 = fst st @ [(key, v)]" by blast
    then show ?thesis by simp
  qed
  note b = this
  have k: "fst ` set (kr # xs) = insert key (fst ` set xs)" by (simp add: kr)
  show ?case
    unfolding k by (rule subset_step [OF Cons.IH [OF rest] b])
qed

section \<open>The claims\<close>

lemmas run_defs =
  prompt_for_config_def create_env_mini_def pop_prompts_def dict_get_def dict_set_def
  dict_del_def dict_merge_def resolve_passes_def schema_items_def visible_prompts_def
  startswith_def first_pass_step_def is_private_def is_choice_with_nested_def
  first_pass_try_def render_str_def env_mini_def prompt_choice_for_config_def
  second_pass_step_def second_pass_try_def reserved_def choice_with_nested_def
  read_user_choice_def read_user_yes_no_def read_user_dict_def choice_map_def
  scripted_def typed_def strip_markers_def prefix_local_def default_prompt_def
  str_of_int_def digits.simps

lemmas example_defs = context_choice_def choice_ab_def nested_x_def

text \<open>
  C9: \<open>render_variable\<close> returns \<^verbatim>\<open>None\<close> and booleans unchanged; a dictionary is rendered
  entry by entry, the key and the value both, into a new dictionary; a list is rendered
  element by element; any other value is turned into a string, which is rendered as a
  template with the one binding \<^verbatim>\<open>cookiecutter\<close> that holds the accumulated context.
\<close>

theorem render_variable_shapes:
  "render_variable env VNone cd = Inr VNone
   \<and> render_variable env (VBool b) cd = Inr (VBool b)
   \<and> (render_variable env (VDict od kvs) cd = Inr v \<longleftrightarrow>
        (\<exists>kvs'. list_all2 (rendered_entry env cd) kvs kvs' \<and> v = VDict False (dict_merge [] kvs')))
   \<and> (render_variable env (VList xs) cd = Inr v \<longleftrightarrow>
        (\<exists>ys. list_all2 (\<lambda>x y. render_variable env x cd = Inr y) xs ys \<and> v = VList ys))
   \<and> render_variable env (VInt i) cd =
        map_sum id VStr (env (str_of_int i) [(''cookiecutter'', VDict True cd)])
   \<and> render_variable env (VStr s) cd =
        map_sum id VStr (env s [(''cookiecutter'', VDict True cd)])"
proof -
  have d: "render_variable env (VDict od kvs) cd = Inr v \<longleftrightarrow>
        (\<exists>kvs'. list_all2 (rendered_entry env cd) kvs kvs' \<and> v = VDict False (dict_merge [] kvs'))"
  proof
    assume "render_variable env (VDict od kvs) cd = Inr v"
    then obtain r where "render_items env kvs cd [] = Inr r" "v = VDict False r"
      by (auto split: sum.splits)
    then show "\<exists>kvs'. list_all2 (rendered_entry env cd) kvs kvs' \<and> v = VDict False (dict_merge [] kvs')"
      using render_items_Inr [of env kvs cd "[]" r] by blast
  next
    assume "\<exists>kvs'. list_all2 (rendered_entry env cd) kvs kvs' \<and> v = VDict False (dict_merge [] kvs')"
    then show "render_variable env (VDict od kvs) cd = Inr v"
      using render_items_all2 [of env cd kvs _ "[]"] by auto
  qed
  have l: "render_variable env (VList xs) cd = Inr v \<longleftrightarrow>
        (\<exists>ys. list_all2 (\<lambda>x y. render_variable env x cd = Inr y) xs ys \<and> v = VList ys)"
  proof
    assume "render_variable env (VList xs) cd = Inr v"
    then obtain ys where "render_list env xs cd = Inr ys" "v = VList ys"
      by (auto split: sum.splits)
    then show "\<exists>ys. list_all2 (\<lambda>x y. render_variable env x cd = Inr y) xs ys \<and> v = VList ys"
      using render_list_Inr by blast
  next
    assume "\<exists>ys. list_all2 (\<lambda>x y. render_variable env x cd = Inr y) xs ys \<and> v = VList ys"
    then show "render_variable env (VList xs) cd = Inr v"
      using render_list_all2 [of env cd xs] by auto
  qed
  have i: "render_variable env (VInt i) cd =
        map_sum id VStr (env (str_of_int i) [(''cookiecutter'', VDict True cd)])"
    by (simp add: render_str_def split: sum.splits)
  have s: "render_variable env (VStr s) cd =
        map_sum id VStr (env s [(''cookiecutter'', VDict True cd)])"
    by (simp add: render_str_def split: sum.splits)
  show ?thesis using d l i s by simp
qed

text \<open>
  C2: the keys of the mapping that \<open>prompt_for_config\<close> returns are the keys written by the
  first loop, in the schema's order, followed by the deferred keys, in the schema's order;
  and the \<^verbatim>\<open>cookiecutter_dict\<close> after any number of iterations of either loop is an initial
  segment of the result, so no entry is rewritten once it is there. The keys of a Python
  dictionary are distinct.
\<close>

theorem result_key_order:
  assumes run: "prompt_for_config mk C context no_input w = Some (context', Inr (result, w'))"
    and dist: "distinct (map fst (schema_items context))"
  shows "map fst result =
           map fst (filter (\<lambda>(k, r). written_in_first_pass k r) (schema_items context')) @
           map fst (filter (\<lambda>(k, r). \<not> written_in_first_pass k r) (schema_items context'))
         \<and> (\<exists>env prompts.
              mk context = Inr env \<and> pop_prompts context = Inr (prompts, context')
              \<and> (\<forall>pre post st w1.
                    schema_items context' = pre @ post
                    \<and> first_pass C env context' prompts no_input
                          (length (visible_prompts (schema_items context'))) pre ([], 0) w
                        = Some (Inr (st, w1))
                    \<longrightarrow> (\<exists>later. result = fst st @ later))
              \<and> (\<forall>pre post st1 w1 st2 w2.
                    schema_items context' = pre @ post
                    \<and> first_pass C env context' prompts no_input
                          (length (visible_prompts (schema_items context')))
                          (schema_items context') ([], 0) w
                        = Some (Inr (st1, w1))
                    \<and> second_pass C env context' prompts no_input
                          (length (visible_prompts (schema_items context'))) pre st1 w1
                        = Inr (st2, w2)
                    \<longrightarrow> (\<exists>later. result = fst st2 @ later)))"
proof -
  let ?S = "schema_items context'"
  let ?n = "length (visible_prompts ?S)"
  from run obtain env prompts st1 w1 count where
    env: "mk context = Inr env" and pop: "pop_prompts context = Inr (prompts, context')"
    and p1: "first_pass C env context' prompts no_input ?n ?S ([], 0) w = Some (Inr (st1, w1))"
    and p2: "second_pass C env context' prompts no_input ?n ?S st1 w1 = Inr ((result, count), w')"
    by (rule prompt_for_config_runs)
  have distS: "distinct (map fst ?S)"
    using dist pop_prompts_schema [OF pop] by (simp add: distinct_dict_del)
  from first_pass_cd [OF p1 distS] obtain new1 where
    new1: "fst st1 = new1"
      "map fst new1 = map fst (filter (\<lambda>(k, r). written_in_first_pass k r) ?S)"
    by auto
  from second_pass_cd [OF p2 distS] obtain new2 where
    new2: "result = fst st1 @ new2"
      "map fst new2 = map fst (filter (\<lambda>(k, r). written_in_second_pass (fst st1) k r) ?S)"
    by auto
  have order: "map fst result =
      map fst (filter (\<lambda>(k, r). written_in_first_pass k r) ?S) @
      map fst (filter (\<lambda>(k, r). \<not> written_in_first_pass k r) ?S)"
    using new1 new2 second_filter_is_deferred [OF distS, of "fst st1"] by simp
  have first: "\<exists>later. result = fst st @ later"
    if split: "?S = pre @ post"
      and pre: "first_pass C env context' prompts no_input ?n pre ([], 0) w = Some (Inr (st, w1'))"
    for pre post st w1'
  proof -
    have rest: "first_pass C env context' prompts no_input ?n post st w1' = Some (Inr (st1, w1))"
      using p1 pre by (simp add: split first_pass_append)
    have dpre: "distinct (map fst pre)" and dpost: "distinct (map fst post)"
      and disj: "fst ` set post \<inter> fst ` set pre = {}"
      using distS by (auto simp: split)
    from first_pass_cd [OF pre dpre] obtain a where a: "fst st = a"
      "map fst a = map fst (filter (\<lambda>(k, r). written_in_first_pass k r) pre)"
      by auto
    have "fst ` set (fst st) \<subseteq> fst ` set pre"
    proof -
      have "fst ` set (fst st) = set (map fst (fst st))" by simp
      also have "\<dots> \<subseteq> set (map fst pre)" using a by auto
      finally show ?thesis by simp
    qed
    with disj have "fst ` set post \<inter> fst ` set (fst st) = {}" by blast
    from first_pass_cd [OF rest dpost this] obtain b where "fst st1 = fst st @ b" by auto
    with new2(1) show ?thesis by simp
  qed
  have second: "\<exists>later. result = fst st2 @ later"
    if split: "?S = pre @ post"
      and p1': "first_pass C env context' prompts no_input ?n ?S ([], 0) w = Some (Inr (st1', w1'))"
      and pre: "second_pass C env context' prompts no_input ?n pre st1' w1' = Inr (st2, w2)"
    for pre post st1' w1' st2 w2
  proof -
    have eq: "st1' = st1" "w1' = w1" using p1 p1' by auto
    have rest: "second_pass C env context' prompts no_input ?n post st2 w2 = Inr ((result, count), w')"
      using p2 pre by (simp add: split second_pass_append eq)
    have "distinct (map fst post)" using distS by (simp add: split)
    from second_pass_cd [OF rest this] show ?thesis by auto
  qed
  show ?thesis
    using order env pop first second by blast
qed

theorem result_key_order_witness:
  "prompt_for_config create_env_mini scripted context_order True []
     = Some ([(''cookiecutter'', VDict True (dict_del ''__prompts__'' schema_order))],
             Inr (resolved_defaults, []))
   \<and> distinct (map fst (schema_items context_order))
   \<and> map fst resolved_defaults =
       map fst (filter (\<lambda>(k, r). written_in_first_pass k r)
                  (dict_del ''__prompts__'' schema_order)) @
       map fst (filter (\<lambda>(k, r). \<not> written_in_first_pass k r)
                  (dict_del ''__prompts__'' schema_order))
   \<and> map fst (filter (\<lambda>(k, r). written_in_first_pass k r) (dict_del ''__prompts__'' schema_order))
     = [''_copy'', ''name'', ''kind'', ''__slug'']
   \<and> map fst (filter (\<lambda>(k, r). \<not> written_in_first_pass k r) (dict_del ''__prompts__'' schema_order))
     = [''settings'', ''db'']"
proof -
  have run: "prompt_for_config create_env_mini scripted context_order True []
     = Some ([(''cookiecutter'', VDict True (dict_del ''__prompts__'' schema_order))],
             Inr (resolved_defaults, []))"
    by (simp add: run_defs context_order_def schema_order_def resolved_defaults_def)
  have dist: "distinct (map fst (schema_items context_order))"
    by (simp add: schema_items_def context_order_def schema_order_def)
  have order: "map fst resolved_defaults =
      map fst (filter (\<lambda>(k, r). written_in_first_pass k r)
                 (dict_del ''__prompts__'' schema_order)) @
      map fst (filter (\<lambda>(k, r). \<not> written_in_first_pass k r)
                 (dict_del ''__prompts__'' schema_order))"
    using result_key_order [OF run dist] by (simp add: schema_items_def)
  have first: "map fst (filter (\<lambda>(k, r). written_in_first_pass k r)
                  (dict_del ''__prompts__'' schema_order))
      = [''_copy'', ''name'', ''kind'', ''__slug'']"
    by (simp add: dict_del_def schema_order_def written_in_first_pass_def startswith_def
          is_choice_with_nested_def)
  have second: "map fst (filter (\<lambda>(k, r). \<not> written_in_first_pass k r)
                  (dict_del ''__prompts__'' schema_order))
      = [''settings'', ''db'']"
    by (simp add: dict_del_def schema_order_def written_in_first_pass_def startswith_def
          is_choice_with_nested_def)
  show ?thesis
    by (rule conjI [OF run conjI [OF dist conjI [OF order conjI [OF first second]]]])
qed

text \<open>
  C1, as the code has it: for a key that does not begin with an underscore and whose value is
  a dictionary with \<^verbatim>\<open>"choices"\<close> and \<^verbatim>\<open>"_"\<close>, the choice is resolved first. Under no-input
  the entry is \<^verbatim>\<open>{"choice": v}\<close> with \<open>v\<close> the first rendered option, and nothing is asked.
  Otherwise, when the nested config's \<^verbatim>\<open>__conditional__\<close> is truthy (there, and not empty) and
  the choice differs from its \<^verbatim>\<open>"value"\<close>, the entry is \<^verbatim>\<open>{"choice": v}\<close>; when the choice
  equals it, or \<^verbatim>\<open>__conditional__\<close> is absent or falsy, the nested fields are resolved after
  the choice and merged into \<^verbatim>\<open>{"choice": v}\<close>.
\<close>

theorem choice_with_nested_resolved:
  assumes env: "mk context = Inr env"
    and pop: "pop_prompts context = Inr (prompts, context')"
    and dist: "distinct (map fst (schema_items context))"
    and split: "schema_items context' = pre @ (key, VDict od kvs) # post"
    and visible: "\<not> startswith key ''_''"
    and choices: "map_of kvs ''choices'' = Some choices"
    and nested: "map_of kvs ''_'' = Some (VDict nod nested_cfg)"
    and before: "first_pass C env context' prompts no_input
                   (length (visible_prompts (schema_items context'))) pre ([], 0) w
                 = Some (Inr (st, w1))"
    and choice: "prompt_choice_for_config C (fst st) env key choices no_input prompts
                   (prefix_local (snd st + 1) (length (visible_prompts (schema_items context')))) w1
                 = Inr (choice_val, w2)"
    and run: "prompt_for_config mk C context no_input w = Some (context', Inr (result, w'))"
  shows "(no_input \<longrightarrow>
            map_of result key = Some (VDict False [(''choice'', choice_val)])
            \<and> w2 = w1
            \<and> (\<exists>raws rendered. py_iter choices = Inr raws
                   \<and> render_list env raws (fst st) = Inr (choice_val # rendered)))
       \<and> (\<not> no_input \<and> truthy (dict_get nested_cfg ''__conditional__'' VNone)
            \<and> \<not> py_eq choice_val (condition_value (dict_get nested_cfg ''__conditional__'' VNone))
          \<longrightarrow> map_of result key = Some (VDict False [(''choice'', choice_val)]))
       \<and> (\<not> no_input
            \<and> (truthy (dict_get nested_cfg ''__conditional__'' VNone)
                 \<longrightarrow> py_eq choice_val (condition_value (dict_get nested_cfg ''__conditional__'' VNone)))
          \<longrightarrow> (\<exists>nested_val w3.
                 prompt_for_nested_config C key nested_cfg False ''    '' w2 = Inr (nested_val, w3)
                 \<and> map_of result key
                     = Some (VDict False (dict_merge [(''choice'', choice_val)] nested_val))))"
proof -
  let ?n = "length (visible_prompts (schema_items context'))"
  let ?cond = "dict_get nested_cfg ''__conditional__'' VNone"
  from first_pass_at [OF run env pop dist split before] obtain st' wb later where
    step: "first_pass_step C env context' prompts no_input ?n key (VDict od kvs) st w1
           = Some (Inr (st', wb))"
    and res: "result = fst st' @ later" and fresh: "key \<notin> fst ` set (fst st)"
    by blast
  have np: "\<not> is_private key" "\<not> startswith key ''__''"
    using visible startswith_dunder by (auto simp: is_private_def)
  have cwn: "is_choice_with_nested (VDict od kvs)"
    using choices nested by (auto simp: is_choice_with_nested_def dest!: map_of_SomeD intro: image_eqI [where x = "(a, b)" for a b])
  have c: "choice_with_nested C env prompts no_input ?n key choices (VDict nod nested_cfg) st w1
           = Inr (st', wb)"
    using step np cwn choices nested by (simp add: first_pass_step_def dict_get_def)
  have stored: "map_of result key = Some v" if "fst st' = dict_set key v (fst st)" for v
  proof -
    have "fst st' = fst st @ [(key, v)]" using that fresh by (simp add: dict_set_new)
    then have "result = (fst st @ [(key, v)]) @ later" using res by simp
    then show ?thesis by (simp only: map_of_written [OF fresh])
  qed
  have a: "map_of result key = Some (VDict False [(''choice'', choice_val)])
           \<and> w2 = w1
           \<and> (\<exists>raws rendered. py_iter choices = Inr raws
                   \<and> render_list env raws (fst st) = Inr (choice_val # rendered))"
    if ni: no_input
  proof -
    from c ni choice have "fst st' = dict_set key (VDict False [(''choice'', choice_val)]) (fst st)"
      by (auto simp: choice_with_nested_def Let_def)
    from stored [OF this] have 1: "map_of result key = Some (VDict False [(''choice'', choice_val)])" .
    from choice ni have 2: "w2 = w1 \<and> (\<exists>raws rendered. py_iter choices = Inr raws
                   \<and> render_list env raws (fst st) = Inr (choice_val # rendered))"
      by (auto simp: prompt_choice_for_config_def split: sum.splits list.splits)
    from 1 2 show ?thesis by blast
  qed
  have b: "map_of result key = Some (VDict False [(''choice'', choice_val)])"
    if "\<not> no_input" "truthy ?cond" "\<not> py_eq choice_val (condition_value ?cond)"
  proof -
    from c that choice have "fst st' = dict_set key (VDict False [(''choice'', choice_val)]) (fst st)"
      by (auto simp: choice_with_nested_def Let_def condition_value_def split: val.splits)
    from stored [OF this] show ?thesis .
  qed
  have d: "\<exists>nested_val w3.
             prompt_for_nested_config C key nested_cfg False ''    '' w2 = Inr (nested_val, w3)
             \<and> map_of result key
                 = Some (VDict False (dict_merge [(''choice'', choice_val)] nested_val))"
    if "\<not> no_input" "truthy ?cond \<longrightarrow> py_eq choice_val (condition_value ?cond)"
  proof -
    from c that choice obtain nested_val w3 where
      n: "prompt_for_nested_config C key nested_cfg False ''    '' w2 = Inr (nested_val, w3)"
      and "fst st' = dict_set key (VDict False (dict_merge [(''choice'', choice_val)] nested_val)) (fst st)"
      unfolding choice_with_nested_def Let_def condition_value_def
      by (auto split: val.splits sum.splits if_splits)
    from stored [OF this(2)] n show ?thesis by blast
  qed
  from a b d show ?thesis by blast
qed



theorem choice_with_nested_resolved_witness:
  "prompt_for_config create_env_mini scripted
       (context_choice ''db'' (VDict True [(''value'', VStr ''a'')])) False [''1'', ''7'']
     = Some (context_choice ''db'' (VDict True [(''value'', VStr ''a'')]),
             Inr ([(''db'', VDict False [(''choice'', VStr ''a''), (''x'', VStr ''7'')])], []))
   \<and> prompt_for_nested_config scripted ''db''
         [(''x'', VInt 1), (''__conditional__'', VDict True [(''value'', VStr ''a'')])] False ''    '' [''7'']
     = Inr ([(''x'', VStr ''7'')], [])
   \<and> map_of [(''db'', VDict False [(''choice'', VStr ''a''), (''x'', VStr ''7'')])] ''db''
     = Some (VDict False (dict_merge [(''choice'', VStr ''a'')] [(''x'', VStr ''7'')]))
   \<and> prompt_for_config create_env_mini scripted
       (context_choice ''db'' (VDict True [(''value'', VStr ''a'')])) False [''2'']
     = Some (context_choice ''db'' (VDict True [(''value'', VStr ''a'')]),
             Inr ([(''db'', VDict False [(''choice'', VStr ''b'')])], []))
   \<and> map_of [(''db'', VDict False [(''choice'', VStr ''b'')])] ''db''
     = Some (VDict False [(''choice'', VStr ''b'')])"
proof -
  let ?cond = "VDict True [(''value'', VStr ''a'')]"
  let ?ctx = "context_choice ''db'' ?cond"
  let ?kvs = "[(''choices'', VDict True [(''a'', VDict True []), (''b'', VDict True [])]),
               (''_'', nested_x ?cond)]"
  let ?ncfg = "[(''x'', VInt 1), (''__conditional__'', ?cond)]"
  have env: "create_env_mini ?ctx = Inr env_mini" by (simp add: create_env_mini_def)
  have pop: "pop_prompts ?ctx = Inr (VDict False [], ?ctx)"
    by (simp add: run_defs example_defs)
  have dist: "distinct (map fst (schema_items ?ctx))"
    by (simp add: run_defs example_defs)
  have split: "schema_items ?ctx = [] @ (''db'', VDict True ?kvs) # []"
    by (simp add: run_defs example_defs)
  have visible: "\<not> startswith ''db'' ''_''" by (simp add: startswith_def)
  have choices: "map_of ?kvs ''choices'' = Some (VDict True [(''a'', VDict True []), (''b'', VDict True [])])"
    by simp
  have nested: "map_of ?kvs ''_'' = Some (VDict True ?ncfg)"
    by (simp add: nested_x_def)
  have before: "first_pass scripted env_mini ?ctx (VDict False []) False
      (length (visible_prompts (schema_items ?ctx))) [] ([], 0) w = Some (Inr (([], 0), w))" for w
    by simp
  have choice1: "prompt_choice_for_config scripted (fst ([]::items, 0::nat)) env_mini ''db''
      (VDict True [(''a'', VDict True []), (''b'', VDict True [])]) False (VDict False [])
      (prefix_local (snd ([]::items, 0::nat) + 1) (length (visible_prompts (schema_items ?ctx))))
      [''1'', ''7''] = Inr (VStr ''a'', [''7''])"
    by (simp add: run_defs example_defs)
  have choice2: "prompt_choice_for_config scripted (fst ([]::items, 0::nat)) env_mini ''db''
      (VDict True [(''a'', VDict True []), (''b'', VDict True [])]) False (VDict False [])
      (prefix_local (snd ([]::items, 0::nat) + 1) (length (visible_prompts (schema_items ?ctx))))
      [''2''] = Inr (VStr ''b'', [])"
    by (simp add: run_defs example_defs)
  have run1: "prompt_for_config create_env_mini scripted ?ctx False [''1'', ''7'']
     = Some (?ctx, Inr ([(''db'', VDict False [(''choice'', VStr ''a''), (''x'', VStr ''7'')])], []))"
    by (simp add: run_defs example_defs)
  have run2: "prompt_for_config create_env_mini scripted ?ctx False [''2'']
     = Some (?ctx, Inr ([(''db'', VDict False [(''choice'', VStr ''b'')])], []))"
    by (simp add: run_defs example_defs)
  have n1: "prompt_for_nested_config scripted ''db'' ?ncfg False ''    '' [''7'']
     = Inr ([(''x'', VStr ''7'')], [])"
    by (simp add: run_defs)
  have t1: "map_of [(''db'', VDict False [(''choice'', VStr ''a''), (''x'', VStr ''7'')])] ''db''
     = Some (VDict False (dict_merge [(''choice'', VStr ''a'')] [(''x'', VStr ''7'')]))"
    using choice_with_nested_resolved [OF env pop dist split visible choices nested before choice1 run1] n1
    by (simp add: run_defs condition_value_def)
  have t2: "map_of [(''db'', VDict False [(''choice'', VStr ''b'')])] ''db''
     = Some (VDict False [(''choice'', VStr ''b'')])"
    using choice_with_nested_resolved [OF env pop dist split visible choices nested before choice2 run2]
    by (simp add: run_defs condition_value_def)
  from run1 n1 t1 run2 t2 show ?thesis by blast
qed


text \<open>
  C1 as it is stated fails in two places. A nested config that carries the empty
  \<^verbatim>\<open>__conditional__\<close> \<^verbatim>\<open>{}\<close> has its fields resolved and merged although the choice \<^verbatim>\<open>b\<close>
  differs from the condition's value; and under a key that begins with an underscore the
  same dictionary is copied as it is, with no choice made and nothing read from the terminal.
\<close>

theorem choice_with_nested_counterexample:
  "dict_get [(''x'', VInt 1), (''__conditional__'', VDict True [])] ''__conditional__'' VNone
     = VDict True []
   \<and> \<not> py_eq (VStr ''b'') (condition_value (VDict True []))
   \<and> prompt_for_config create_env_mini scripted
       (context_choice ''db'' (VDict True [])) False [''2'', ''7'']
     = Some (context_choice ''db'' (VDict True []),
             Inr ([(''db'', VDict False [(''choice'', VStr ''b''), (''x'', VStr ''7'')])], []))
   \<and> prompt_for_config create_env_mini scripted
       (context_choice ''_db'' (VDict True [(''value'', VStr ''a'')])) False [''1'', ''7'']
     = Some (context_choice ''_db'' (VDict True [(''value'', VStr ''a'')]),
             Inr ([(''_db'', choice_ab (VDict True [(''value'', VStr ''a'')]))], [''1'', ''7'']))"
  by (simp add: run_defs example_defs condition_value_def)


text \<open>
  C3: in the second loop, at a key that is still unresolved and whose value is a dictionary
  with \<^verbatim>\<open>__prompts__\<close>: when the value also carries a \<^verbatim>\<open>__conditional__\<close> descriptor whose
  \<^verbatim>\<open>option\<close> names a key, the nested fields are resolved by the nested-config resolver if
  the resolved value of that key equals the descriptor's \<^verbatim>\<open>value\<close>, and otherwise the
  entry is the raw fields without \<^verbatim>\<open>__prompts__\<close> and \<^verbatim>\<open>__conditional__\<close>, neither rendered
  nor asked for, and the terminal is left as it was; with no \<^verbatim>\<open>__conditional__\<close> the nested
  fields are always resolved. In each case the entry is appended to \<^verbatim>\<open>cookiecutter_dict\<close> and
  \<^verbatim>\<open>count\<close> stays as it is.
\<close>

theorem nested_config_second_pass:
  assumes env: "mk context = Inr env"
    and pop: "pop_prompts context = Inr (prompts, context')"
    and dist: "distinct (map fst (schema_items context))"
    and split: "schema_items context' = pre @ (key, VDict od kvs) # post"
    and marker: "''__prompts__'' \<in> fst ` set kvs"
    and first: "first_pass C env context' prompts no_input
                  (length (visible_prompts (schema_items context')))
                  (schema_items context') ([], 0) w
                = Some (Inr (st1, w1))"
    and before: "second_pass C env context' prompts no_input
                   (length (visible_prompts (schema_items context'))) pre st1 w1
                 = Inr (st, w2)"
    and unresolved: "key \<notin> fst ` set (fst st)"
    and run: "prompt_for_config mk C context no_input w = Some (context', Inr (result, w'))"
  shows "(\<forall>cod c k.
            map_of kvs ''__conditional__'' = Some (VDict cod c)
            \<and> dict_get c ''option'' VNone = VStr k
            \<and> py_eq (dict_get (fst st) k VNone) (dict_get c ''value'' VNone)
          \<longrightarrow> (\<exists>r w3. prompt_for_nested_config C key kvs no_input [] w2 = Inr (r, w3)
                 \<and> second_pass C env context' prompts no_input
                       (length (visible_prompts (schema_items context')))
                       (pre @ [(key, VDict od kvs)]) st1 w1
                     = Inr ((fst st @ [(key, VDict True r)], snd st), w3)
                 \<and> map_of result key = Some (VDict True r)))
       \<and> (\<forall>cod c k.
            map_of kvs ''__conditional__'' = Some (VDict cod c)
            \<and> dict_get c ''option'' VNone = VStr k
            \<and> \<not> py_eq (dict_get (fst st) k VNone) (dict_get c ''value'' VNone)
          \<longrightarrow> second_pass C env context' prompts no_input
                 (length (visible_prompts (schema_items context')))
                 (pre @ [(key, VDict od kvs)]) st1 w1
               = Inr ((fst st @ [(key, VDict False (strip_markers kvs))], snd st), w2)
              \<and> map_of result key = Some (VDict False (strip_markers kvs)))
       \<and> (''__conditional__'' \<notin> fst ` set kvs
          \<longrightarrow> (\<exists>r w3. prompt_for_nested_config C key kvs no_input [] w2 = Inr (r, w3)
                 \<and> second_pass C env context' prompts no_input
                       (length (visible_prompts (schema_items context')))
                       (pre @ [(key, VDict od kvs)]) st1 w1
                     = Inr ((fst st @ [(key, VDict True r)], snd st), w3)
                 \<and> map_of result key = Some (VDict True r)))"
proof -
  let ?S = "schema_items context'"
  let ?n = "length (visible_prompts ?S)"
  from second_pass_at [OF run env pop dist split first before] obtain st' wb later where
    step: "second_pass_step C env context' prompts no_input ?n key (VDict od kvs) st w2
           = Inr (st', wb)"
    and res: "result = fst st' @ later"
    by blast
  have distS: "distinct (map fst ?S)"
    using dist pop_prompts_schema [OF pop] by (simp add: distinct_dict_del)
  have np: "\<not> is_private key"
  proof
    assume p: "is_private key"
    then have wr: "written_in_first_pass key (VDict od kvs)"
      by (simp add: written_in_first_pass_def is_private_def)
    from first_pass_cd [OF first distS] obtain new where
      new: "fst st1 = new" "map fst new = map fst (filter (\<lambda>(k, r). written_in_first_pass k r) ?S)"
      by auto
    have "key \<in> set (map fst (filter (\<lambda>(k, r). written_in_first_pass k r) ?S))"
      using wr unfolding split by simp
    then have "key \<in> set (map fst (fst st1))" using new by simp
    moreover have "distinct (map fst pre)" using distS unfolding split by simp
    from second_pass_cd [OF before this] obtain b where "fst st = fst st1 @ b" by auto
    ultimately have "key \<in> set (map fst (fst st))" by simp
    then show False using unresolved by simp
  qed
  have t: "second_pass_try C env prompts no_input ?n key (VDict od kvs) st w2 = Inr (st', wb)"
    using step unresolved np by (simp add: second_pass_step_def)
  have after: "second_pass C env context' prompts no_input ?n (pre @ [(key, VDict od kvs)]) st1 w1
      = Inr (st', wb)"
    using before step by (simp add: second_pass_append)
  have stored: "second_pass C env context' prompts no_input ?n (pre @ [(key, VDict od kvs)]) st1 w1
        = Inr ((fst st @ [(key, v)], snd st), wb)
      \<and> map_of result key = Some v"
    if "st' = (dict_set key v (fst st), snd st)" for v
  proof -
    have s: "st' = (fst st @ [(key, v)], snd st)" using that unresolved by (simp add: dict_set_new)
    then have "result = (fst st @ [(key, v)]) @ later" using res by simp
    then have "map_of result key = Some v" by (simp only: map_of_written [OF unresolved])
    with after s show ?thesis by simp
  qed
  let ?after = "\<lambda>v w3. second_pass C env context' prompts no_input ?n
                    (pre @ [(key, VDict od kvs)]) st1 w1
                  = Inr ((fst st @ [(key, v)], snd st), w3)"
  have a: "\<exists>r w3. prompt_for_nested_config C key kvs no_input [] w2 = Inr (r, w3)
                 \<and> ?after (VDict True r) w3
                 \<and> map_of result key = Some (VDict True r)"
    if "map_of kvs ''__conditional__'' = Some (VDict cod c)"
      "dict_get c ''option'' VNone = VStr k"
      "py_eq (dict_get (fst st) k VNone) (dict_get c ''value'' VNone)" for cod c k
  proof -
    have in_kvs: "''__conditional__'' \<in> fst ` set kvs"
      using that(1) by (metis domI dom_map_of_conv_image_fst)
    from t marker in_kvs that obtain r where
      "prompt_for_nested_config C key kvs no_input [] w2 = Inr (r, wb)"
      "st' = (dict_set key (VDict True r) (fst st), snd st)"
      unfolding second_pass_try_def Let_def
      by (auto simp: dict_get_def split: sum.splits)
    with stored [of "VDict True r"] show ?thesis by blast
  qed
  have b: "?after (VDict False (strip_markers kvs)) w2
           \<and> map_of result key = Some (VDict False (strip_markers kvs))"
    if "map_of kvs ''__conditional__'' = Some (VDict cod c)"
      "dict_get c ''option'' VNone = VStr k"
      "\<not> py_eq (dict_get (fst st) k VNone) (dict_get c ''value'' VNone)" for cod c k
  proof -
    have in_kvs: "''__conditional__'' \<in> fst ` set kvs"
      using that(1) by (metis domI dom_map_of_conv_image_fst)
    from t marker in_kvs that have
      "st' = (dict_set key (VDict False (strip_markers kvs)) (fst st), snd st)" "wb = w2"
      unfolding second_pass_try_def Let_def
      by (auto simp: dict_get_def split: sum.splits)
    with stored [of "VDict False (strip_markers kvs)"] show ?thesis by simp
  qed
  have c: "\<exists>r w3. prompt_for_nested_config C key kvs no_input [] w2 = Inr (r, w3)
                 \<and> ?after (VDict True r) w3
                 \<and> map_of result key = Some (VDict True r)"
    if "''__conditional__'' \<notin> fst ` set kvs"
  proof -
    from t marker that obtain r where
      "prompt_for_nested_config C key kvs no_input [] w2 = Inr (r, wb)"
      "st' = (dict_set key (VDict True r) (fst st), snd st)"
      unfolding second_pass_try_def Let_def
      by (auto split: sum.splits)
    with stored [of "VDict True r"] show ?thesis by blast
  qed
  from a b c show ?thesis by blast
qed

theorem nested_config_second_pass_witness:
  "prompt_for_config create_env_mini scripted context_db False ['''', ''h2'']
     = Some (context_db,
             Inr ([(''flavor'', VStr ''pg''), (''db'', VDict True [(''host'', VStr ''h2'')])], []))
   \<and> prompt_for_nested_config scripted ''db'' db_config False [] [''h2'']
     = Inr ([(''host'', VStr ''h2'')], [])
   \<and> map_of [(''flavor'', VStr ''pg''), (''db'', VDict True [(''host'', VStr ''h2'')])] ''db''
     = Some (VDict True [(''host'', VStr ''h2'')])
   \<and> prompt_for_config create_env_mini scripted context_db False [''mysql'']
     = Some (context_db,
             Inr ([(''flavor'', VStr ''mysql''),
                   (''db'', VDict False [(''host'', VStr ''localhost'')])], []))
   \<and> map_of [(''flavor'', VStr ''mysql''), (''db'', VDict False [(''host'', VStr ''localhost'')])] ''db''
     = Some (VDict False (strip_markers db_config))"
proof -
  let ?S = "[(''flavor'', VStr ''pg''), (''db'', VDict True db_config)]"
  have S: "schema_items context_db = ?S"
    by (simp add: schema_items_def context_db_def)
  have env: "create_env_mini context_db = Inr env_mini" by (simp add: create_env_mini_def)
  have pop: "pop_prompts context_db = Inr (VDict False [], context_db)"
    by (simp add: run_defs context_db_def)
  have dist: "distinct (map fst (schema_items context_db))"
    by (simp add: S)
  have split: "schema_items context_db = [(''flavor'', VStr ''pg'')] @ (''db'', VDict True db_config) # []"
    by (simp add: S)
  have marker: "''__prompts__'' \<in> fst ` set db_config"
    by (simp add: db_config_def)
  have n: "length (visible_prompts (schema_items context_db)) = 2"
    by (simp add: S visible_prompts_def startswith_def)
  have first1: "first_pass scripted env_mini context_db (VDict False []) False
      (length (visible_prompts (schema_items context_db))) (schema_items context_db) ([], 0)
      ['''', ''h2''] = Some (Inr (([(''flavor'', VStr ''pg'')], 1), [''h2'']))"
    unfolding n S
    by (simp add: run_defs db_config_def read_user_variable.simps)
  have first2: "first_pass scripted env_mini context_db (VDict False []) False
      (length (visible_prompts (schema_items context_db))) (schema_items context_db) ([], 0)
      [''mysql''] = Some (Inr (([(''flavor'', VStr ''mysql'')], 1), []))"
    unfolding n S
    by (simp add: run_defs db_config_def read_user_variable.simps)
  have before: "second_pass scripted env_mini context_db (VDict False []) False
      (length (visible_prompts (schema_items context_db))) [(''flavor'', VStr ''pg'')]
      ([(''flavor'', v)], 1) w = Inr (([(''flavor'', v)], 1), w)" for v w
    by (simp add: second_pass_step_def)
  have unresolved: "''db'' \<notin> fst ` set (fst ([(''flavor'', v)], 1::nat))" for v
    by simp
  have run1: "prompt_for_config create_env_mini scripted context_db False ['''', ''h2'']
     = Some (context_db,
             Inr ([(''flavor'', VStr ''pg''), (''db'', VDict True [(''host'', VStr ''h2'')])], []))"
    by (simp add: run_defs context_db_def db_config_def read_user_variable.simps)
  have run2: "prompt_for_config create_env_mini scripted context_db False [''mysql'']
     = Some (context_db,
             Inr ([(''flavor'', VStr ''mysql''),
                   (''db'', VDict False [(''host'', VStr ''localhost'')])], []))"
    by (simp add: run_defs context_db_def db_config_def read_user_variable.simps)
  have n1: "prompt_for_nested_config scripted ''db'' db_config False [] [''h2'']
     = Inr ([(''host'', VStr ''h2'')], [])"
    by (simp add: run_defs db_config_def)
  have cond: "map_of db_config ''__conditional__''
      = Some (VDict True [(''option'', VStr ''flavor''), (''value'', VStr ''pg'')])"
    "dict_get [(''option'', VStr ''flavor''), (''value'', VStr ''pg'')] ''option'' VNone = VStr ''flavor''"
    by (simp_all add: db_config_def dict_get_def)
  have eq1: "py_eq (dict_get (fst ([(''flavor'', VStr ''pg'')], 1::nat)) ''flavor'' VNone)
      (dict_get [(''option'', VStr ''flavor''), (''value'', VStr ''pg'')] ''value'' VNone)"
    by (simp add: dict_get_def)
  have eq2: "\<not> py_eq (dict_get (fst ([(''flavor'', VStr ''mysql'')], 1::nat)) ''flavor'' VNone)
      (dict_get [(''option'', VStr ''flavor''), (''value'', VStr ''pg'')] ''value'' VNone)"
    by (simp add: dict_get_def)
  have t1: "map_of [(''flavor'', VStr ''pg''), (''db'', VDict True [(''host'', VStr ''h2'')])] ''db''
     = Some (VDict True [(''host'', VStr ''h2'')])"
    using nested_config_second_pass [OF env pop dist split marker first1 before unresolved run1]
      cond eq1 n1 by simp
  have t2: "map_of [(''flavor'', VStr ''mysql''), (''db'', VDict False [(''host'', VStr ''localhost'')])] ''db''
     = Some (VDict False (strip_markers db_config))"
    using nested_config_second_pass [OF env pop dist split marker first2 before unresolved run2]
      cond eq2 by blast
  from run1 n1 t1 run2 t2 show ?thesis by blast
qed

text \<open>
  C4, as the code has it: a key that begins with an underscore is not among the visible
  prompts. When it begins with one underscore only, its iteration appends the raw value as
  it is and changes neither \<^verbatim>\<open>count\<close> nor the terminal; when it begins with two, the raw
  value is rendered against the \<^verbatim>\<open>cookiecutter_dict\<close> of that moment and appended, again
  with \<^verbatim>\<open>count\<close> and the terminal unchanged. The keys are those of the schema the loops
  iterate, from which \<^verbatim>\<open>__prompts__\<close> has been popped.
\<close>

theorem underscore_keys:
  assumes env: "mk context = Inr env"
    and pop: "pop_prompts context = Inr (prompts, context')"
    and dist: "distinct (map fst (schema_items context))"
    and split: "schema_items context' = pre @ (key, raw) # post"
    and under: "startswith key ''_''"
    and before: "first_pass C env context' prompts no_input
                   (length (visible_prompts (schema_items context'))) pre ([], 0) w
                 = Some (Inr (st, w1))"
    and run: "prompt_for_config mk C context no_input w = Some (context', Inr (result, w'))"
  shows "key \<notin> set (visible_prompts (schema_items context'))
       \<and> (\<not> startswith key ''__'' \<longrightarrow>
            first_pass C env context' prompts no_input
                (length (visible_prompts (schema_items context'))) (pre @ [(key, raw)]) ([], 0) w
              = Some (Inr ((fst st @ [(key, raw)], snd st), w1))
            \<and> map_of result key = Some raw)
       \<and> (startswith key ''__'' \<longrightarrow>
            (\<exists>v. render_variable env raw (fst st) = Inr v
               \<and> first_pass C env context' prompts no_input
                    (length (visible_prompts (schema_items context'))) (pre @ [(key, raw)]) ([], 0) w
                  = Some (Inr ((fst st @ [(key, v)], snd st), w1))
               \<and> map_of result key = Some v))"
proof -
  let ?n = "length (visible_prompts (schema_items context'))"
  from first_pass_at [OF run env pop dist split before] obtain st' wb later where
    step: "first_pass_step C env context' prompts no_input ?n key raw st w1 = Some (Inr (st', wb))"
    and res: "result = fst st' @ later" and fresh: "key \<notin> fst ` set (fst st)"
    by blast
  have stored: "map_of result key = Some v" if "fst st' = fst st @ [(key, v)]" for v
  proof -
    have "result = (fst st @ [(key, v)]) @ later" using that res by simp
    then show ?thesis by (simp only: map_of_written [OF fresh])
  qed
  have pre1: "first_pass C env context' prompts no_input ?n (pre @ [(key, raw)]) ([], 0) w
      = Some (Inr (st', wb))"
    using before step by (simp add: first_pass_append)
  have v: "key \<notin> set (visible_prompts (schema_items context'))"
    using under by (auto simp: visible_prompts_def)
  have a: "first_pass C env context' prompts no_input ?n (pre @ [(key, raw)]) ([], 0) w
              = Some (Inr ((fst st @ [(key, raw)], snd st), w1))
            \<and> map_of result key = Some raw"
    if "\<not> startswith key ''__''"
  proof -
    have "is_private key" using under that by (simp add: is_private_def)
    with step have "st' = (fst st @ [(key, raw)], snd st)" "wb = w1"
      using fresh by (auto simp: first_pass_step_def dict_set_new)
    with pre1 stored show ?thesis by simp
  qed
  have b: "\<exists>v. render_variable env raw (fst st) = Inr v
               \<and> first_pass C env context' prompts no_input ?n (pre @ [(key, raw)]) ([], 0) w
                  = Some (Inr ((fst st @ [(key, v)], snd st), w1))
               \<and> map_of result key = Some v"
    if d: "startswith key ''__''"
  proof -
    have "\<not> is_private key" using d by (simp add: is_private_def)
    with step d obtain v where "render_variable env raw (fst st) = Inr v"
      "st' = (fst st @ [(key, v)], snd st)" "wb = w1"
      using fresh by (auto simp: first_pass_step_def dict_set_new split: sum.splits)
    with pre1 stored show ?thesis by simp
  qed
  from v a b show ?thesis by blast
qed

theorem underscore_keys_witness:
  "prompt_for_config create_env_mini scripted context_order False [''Tool'', ''2'', '''', ''h'']
     = Some ([(''cookiecutter'', VDict True (dict_del ''__prompts__'' schema_order))],
             Inr (resolved_order, []))
   \<and> ''_copy'' \<notin> set (visible_prompts (dict_del ''__prompts__'' schema_order))
   \<and> map_of resolved_order ''_copy'' = Some (VList [VStr ''*.png''])
   \<and> ''__slug'' \<notin> set (visible_prompts (dict_del ''__prompts__'' schema_order))
   \<and> render_variable env_mini (VStr ''{{ cookiecutter.name }}'') (take 3 resolved_order)
     = Inr (VStr ''Tool'')
   \<and> map_of resolved_order ''__slug'' = Some (VStr ''Tool'')"
proof -
  let ?ctx' = "[(''cookiecutter'', VDict True (dict_del ''__prompts__'' schema_order))]"
  let ?prompts = "VDict True [(''name'', VStr ''Project name'')]"
  let ?S = "dict_del ''__prompts__'' schema_order"
  have S: "schema_items ?ctx' = ?S" by (simp add: schema_items_def)
  have env: "create_env_mini context_order = Inr env_mini" by (simp add: create_env_mini_def)
  have pop: "pop_prompts context_order = Inr (?prompts, ?ctx')"
    by (simp add: run_defs context_order_def schema_order_def)
  have dist: "distinct (map fst (schema_items context_order))"
    by (simp add: schema_items_def context_order_def schema_order_def)
  have split1: "schema_items ?ctx' =
      [(''settings'', VDict True [(''level'', VStr ''{{ cookiecutter.name }}'')])]
      @ (''_copy'', VList [VStr ''*.png'']) # drop 2 ?S"
    by (simp add: schema_items_def dict_del_def schema_order_def)
  have split2: "schema_items ?ctx' =
      take 5 ?S @ (''__slug'', VStr ''{{ cookiecutter.name }}'') # []"
    by (simp add: schema_items_def dict_del_def schema_order_def)
  have n: "length (visible_prompts (schema_items ?ctx')) = 4"
    by (simp add: schema_items_def dict_del_def schema_order_def visible_prompts_def startswith_def)
  have before1: "first_pass scripted env_mini ?ctx' ?prompts False
      (length (visible_prompts (schema_items ?ctx')))
      [(''settings'', VDict True [(''level'', VStr ''{{ cookiecutter.name }}'')])] ([], 0)
      [''Tool'', ''2'', '''', ''h''] = Some (Inr (([], 0), [''Tool'', ''2'', '''', ''h'']))"
    unfolding n by (simp add: run_defs)
  have before2: "first_pass scripted env_mini ?ctx' ?prompts False
      (length (visible_prompts (schema_items ?ctx'))) (take 5 ?S) ([], 0)
      [''Tool'', ''2'', '''', ''h''] = Some (Inr ((take 3 resolved_order, 2), ['''', ''h'']))"
    unfolding n
    by (simp add: run_defs schema_order_def resolved_order_def read_user_variable.simps)
  have run: "prompt_for_config create_env_mini scripted context_order False [''Tool'', ''2'', '''', ''h'']
     = Some (?ctx', Inr (resolved_order, []))"
    by (simp add: run_defs context_order_def schema_order_def resolved_order_def
          read_user_variable.simps)
  have u1: "startswith ''_copy'' ''_''" and u2: "startswith ''__slug'' ''_''"
    and d1: "\<not> startswith ''_copy'' ''__''" and d2: "startswith ''__slug'' ''__''"
    by (simp_all add: startswith_def)
  have t1: "''_copy'' \<notin> set (visible_prompts ?S)
      \<and> map_of resolved_order ''_copy'' = Some (VList [VStr ''*.png''])"
    using underscore_keys [OF env pop dist split1 u1 before1 run] d1 by (simp add: S)
  have r: "render_variable env_mini (VStr ''{{ cookiecutter.name }}'') (take 3 resolved_order)
      = Inr (VStr ''Tool'')"
    by (simp add: run_defs resolved_order_def)
  have t2: "''__slug'' \<notin> set (visible_prompts ?S)
      \<and> map_of resolved_order ''__slug'' = Some (VStr ''Tool'')"
    using underscore_keys [OF env pop dist split2 u2 before2 run] d2 r by (auto simp: S)
  from run t1 r t2 show ?thesis by blast
qed

text \<open>
  C4 as it is stated fails for the key \<^verbatim>\<open>__prompts__\<close>: it begins with two underscores, and
  it is neither rendered nor stored.
\<close>

theorem underscore_keys_counterexample:
  "startswith ''__prompts__'' ''__''
   \<and> map_of (schema_items context_order) ''__prompts__''
     = Some (VDict True [(''name'', VStr ''Project name'')])
   \<and> prompt_for_config create_env_mini scripted context_order False [''Tool'', ''2'', '''', ''h'']
     = Some ([(''cookiecutter'', VDict True (dict_del ''__prompts__'' schema_order))],
             Inr (resolved_order, []))
   \<and> map_of resolved_order ''__prompts__'' = None"
  by (simp add: run_defs context_order_def schema_order_def resolved_order_def
        read_user_variable.simps)

text \<open>
  What the two \<^verbatim>\<open>try\<close> blocks do wrap: an \<^verbatim>\<open>UndefinedError\<close> raised inside the \<^verbatim>\<open>try\<close> of an
  iteration (in the first loop the key does not begin with an underscore and its value is not
  a choice with a nested config; in the second loop the key is still unresolved) ends the run
  with \<^verbatim>\<open>UndefinedVariableInTemplate\<close>, which carries the message naming the key, the error
  and the context as it is after \<^verbatim>\<open>__prompts__\<close> was popped.
\<close>

theorem undefined_variable_wrapped:
  assumes env: "mk context = Inr env"
    and pop: "pop_prompts context = Inr (prompts, context')"
    and split: "schema_items context' = pre @ (key, raw) # post"
  shows "(\<forall>st w1 m.
            first_pass C env context' prompts no_input
                (length (visible_prompts (schema_items context'))) pre ([], 0) w
              = Some (Inr (st, w1))
            \<and> \<not> startswith key ''_'' \<and> \<not> is_choice_with_nested raw
            \<and> first_pass_try C env prompts no_input
                (length (visible_prompts (schema_items context'))) key raw
                (fst st, if is_dict raw then snd st else snd st + 1) w1
              = Some (Inl (UndefinedError m))
          \<longrightarrow> prompt_for_config mk C context no_input w
              = Some (context', Inl (UndefinedVariableInTemplate (unable_to_render key)
                                       (UndefinedError m) context')))
       \<and> (\<forall>st1 w1 st w2 m.
            first_pass C env context' prompts no_input
                (length (visible_prompts (schema_items context'))) (schema_items context') ([], 0) w
              = Some (Inr (st1, w1))
            \<and> second_pass C env context' prompts no_input
                (length (visible_prompts (schema_items context'))) pre st1 w1
              = Inr (st, w2)
            \<and> key \<notin> fst ` set (fst st) \<and> \<not> is_private key
            \<and> second_pass_try C env prompts no_input
                (length (visible_prompts (schema_items context'))) key raw st w2
              = Inl (UndefinedError m)
          \<longrightarrow> prompt_for_config mk C context no_input w
              = Some (context', Inl (UndefinedVariableInTemplate (unable_to_render key)
                                       (UndefinedError m) context')))"
proof -
  let ?S = "schema_items context'"
  let ?n = "length (visible_prompts ?S)"
  let ?err = "\<lambda>m. UndefinedVariableInTemplate (unable_to_render key) (UndefinedError m) context'"
  have a: "prompt_for_config mk C context no_input w = Some (context', Inl (?err m))"
    if before: "first_pass C env context' prompts no_input ?n pre ([], 0) w = Some (Inr (st, w1))"
      and vis: "\<not> startswith key ''_''" and ncwn: "\<not> is_choice_with_nested raw"
      and fails: "first_pass_try C env prompts no_input ?n key raw
                    (fst st, if is_dict raw then snd st else snd st + 1) w1
                  = Some (Inl (UndefinedError m))"
    for st w1 m
  proof -
    have np: "\<not> is_private key" "\<not> startswith key ''__''"
      using vis startswith_dunder by (auto simp: is_private_def)
    have "first_pass_step C env context' prompts no_input ?n key raw st w1 = Some (Inl (?err m))"
      using np ncwn fails by (simp add: first_pass_step_def)
    then have "first_pass C env context' prompts no_input ?n (pre @ (key, raw) # post) ([], 0) w
        = Some (Inl (?err m))"
      using before by (simp add: first_pass_append)
    then have "first_pass C env context' prompts no_input ?n ?S ([], 0) w = Some (Inl (?err m))"
      using split by simp
    then show ?thesis
      using env pop by (simp add: prompt_for_config_def resolve_passes_def)
  qed
  have b: "prompt_for_config mk C context no_input w = Some (context', Inl (?err m))"
    if first: "first_pass C env context' prompts no_input ?n ?S ([], 0) w = Some (Inr (st1, w1))"
      and before: "second_pass C env context' prompts no_input ?n pre st1 w1 = Inr (st, w2)"
      and unresolved: "key \<notin> fst ` set (fst st)" and np: "\<not> is_private key"
      and fails: "second_pass_try C env prompts no_input ?n key raw st w2 = Inl (UndefinedError m)"
    for st1 w1 st w2 m
  proof -
    have "second_pass_step C env context' prompts no_input ?n key raw st w2 = Inl (?err m)"
      using unresolved np fails by (simp add: second_pass_step_def)
    then have "second_pass C env context' prompts no_input ?n (pre @ (key, raw) # post) st1 w1
        = Inl (?err m)"
      using before by (simp add: second_pass_append)
    then have "second_pass C env context' prompts no_input ?n ?S st1 w1 = Inl (?err m)"
      using split by simp
    then show ?thesis
      using env pop first by (simp add: prompt_for_config_def resolve_passes_def)
  qed
  from a b show ?thesis by blast
qed

theorem undefined_variable_wrapped_witness:
  "first_pass_try scripted env_mini (VDict False []) True 1 ''name'' missing ([], 1) []
     = Some (Inl (UndefinedError ''missing''))
   \<and> prompt_for_config create_env_mini scripted (context_one ''name'' missing) True []
     = Some (context_one ''name'' missing,
             Inl (UndefinedVariableInTemplate (unable_to_render ''name'')
                    (UndefinedError ''missing'') (context_one ''name'' missing)))
   \<and> second_pass_try scripted env_mini (VDict False []) True 1 ''opts''
        (VDict True [(''a'', missing)]) ([], 0) []
     = Inl (UndefinedError ''missing'')
   \<and> prompt_for_config create_env_mini scripted
        (context_one ''opts'' (VDict True [(''a'', missing)])) True []
     = Some (context_one ''opts'' (VDict True [(''a'', missing)]),
             Inl (UndefinedVariableInTemplate (unable_to_render ''opts'')
                    (UndefinedError ''missing'')
                    (context_one ''opts'' (VDict True [(''a'', missing)]))))"
proof -
  let ?c1 = "context_one ''name'' missing"
  let ?c2 = "context_one ''opts'' (VDict True [(''a'', missing)])"
  have env1: "create_env_mini ?c1 = Inr env_mini" by (simp add: create_env_mini_def)
  have env2: "create_env_mini ?c2 = Inr env_mini" by (simp add: create_env_mini_def)
  have pop1: "pop_prompts ?c1 = Inr (VDict False [], ?c1)"
    by (simp add: run_defs context_one_def)
  have pop2: "pop_prompts ?c2 = Inr (VDict False [], ?c2)"
    by (simp add: run_defs context_one_def)
  have split1: "schema_items ?c1 = [] @ (''name'', missing) # []"
    by (simp add: schema_items_def context_one_def)
  have split2: "schema_items ?c2 = [] @ (''opts'', VDict True [(''a'', missing)]) # []"
    by (simp add: schema_items_def context_one_def)
  have n1: "length (visible_prompts (schema_items ?c1)) = 1"
    by (simp add: split1 visible_prompts_def startswith_def)
  have n2: "length (visible_prompts (schema_items ?c2)) = 1"
    by (simp add: split2 visible_prompts_def startswith_def)
  have f1: "first_pass_try scripted env_mini (VDict False []) True 1 ''name'' missing ([], 1) []
     = Some (Inl (UndefinedError ''missing''))"
    by (simp add: run_defs missing_def)
  have f2: "second_pass_try scripted env_mini (VDict False []) True 1 ''opts''
        (VDict True [(''a'', missing)]) ([], 0) [] = Inl (UndefinedError ''missing'')"
    by (simp add: run_defs missing_def)
  have h1: "first_pass scripted env_mini ?c1 (VDict False []) True
        (length (visible_prompts (schema_items ?c1))) [] ([], 0) [] = Some (Inr (([], 0), []))
      \<and> \<not> startswith ''name'' ''_'' \<and> \<not> is_choice_with_nested missing
      \<and> first_pass_try scripted env_mini (VDict False []) True
          (length (visible_prompts (schema_items ?c1))) ''name'' missing
          (fst ([]::items, 0::nat), if is_dict missing then snd ([]::items, 0::nat)
                                else snd ([]::items, 0::nat) + 1) []
        = Some (Inl (UndefinedError ''missing''))"
    using f1 unfolding n1
    by (simp add: startswith_def is_choice_with_nested_def missing_def)
  have h2: "first_pass scripted env_mini ?c2 (VDict False []) True
        (length (visible_prompts (schema_items ?c2))) (schema_items ?c2) ([], 0) []
        = Some (Inr (([], 0), []))
      \<and> second_pass scripted env_mini ?c2 (VDict False []) True
          (length (visible_prompts (schema_items ?c2))) [] ([], 0) [] = Inr (([], 0), [])
      \<and> ''opts'' \<notin> fst ` set (fst ([]::items, 0::nat)) \<and> \<not> is_private ''opts''
      \<and> second_pass_try scripted env_mini (VDict False []) True
          (length (visible_prompts (schema_items ?c2))) ''opts''
          (VDict True [(''a'', missing)]) ([], 0) [] = Inl (UndefinedError ''missing'')"
    using f2 unfolding n2
    by (simp add: run_defs missing_def context_one_def)
  have t1: "prompt_for_config create_env_mini scripted ?c1 True []
     = Some (?c1, Inl (UndefinedVariableInTemplate (unable_to_render ''name'')
                    (UndefinedError ''missing'') ?c1))"
    using undefined_variable_wrapped [where mk = create_env_mini and C = scripted and no_input = True
        and w = "[]", OF env1 pop1 split1] h1 by blast
  have t2: "prompt_for_config create_env_mini scripted ?c2 True []
     = Some (?c2, Inl (UndefinedVariableInTemplate (unable_to_render ''opts'')
                    (UndefinedError ''missing'') ?c2))"
    using undefined_variable_wrapped [where mk = create_env_mini and C = scripted and no_input = True
        and w = "[]", OF env2 pop2 split2] h2 by blast
  from f1 t1 f2 t2 show ?thesis by blast
qed

text \<open>
  C8 fails on the code: two renderings are outside the \<^verbatim>\<open>try\<close> blocks. For a key that begins
  with two underscores, and for the options of a choice with a nested config, an
  \<^verbatim>\<open>UndefinedError\<close> ends the run as it is, not wrapped into \<^verbatim>\<open>UndefinedVariableInTemplate\<close>.
  The same options given as a plain list go through the same \<open>prompt_choice_for_config\<close>
  inside the \<^verbatim>\<open>try\<close>, and there the error is wrapped.
\<close>

theorem undefined_variable_not_wrapped:
  "render_variable env_mini missing [] = Inl (UndefinedError ''missing'')
   \<and> prompt_for_config create_env_mini scripted (context_one ''__version'' missing) True []
     = Some (context_one ''__version'' missing, Inl (UndefinedError ''missing''))
   \<and> prompt_for_config create_env_mini scripted
        (context_one ''db'' (VDict True [(''choices'', VList [missing]), (''_'', VDict True [])]))
        True []
     = Some (context_one ''db'' (VDict True [(''choices'', VList [missing]), (''_'', VDict True [])]),
             Inl (UndefinedError ''missing''))
   \<and> prompt_for_config create_env_mini scripted (context_one ''db'' (VList [missing])) True []
     = Some (context_one ''db'' (VList [missing]),
             Inl (UndefinedVariableInTemplate (unable_to_render ''db'')
                    (UndefinedError ''missing'') (context_one ''db'' (VList [missing]))))"
  by (simp add: run_defs context_one_def missing_def)

text \<open>
  C5 fails on the code: a key that does not begin with an underscore and whose value is a
  nested config (a dictionary with \<^verbatim>\<open>__prompts__\<close>) is counted among the visible prompts, but
  the branch of the second loop that resolves it never increments \<^verbatim>\<open>count\<close>. With that one
  key in the schema the run ends with \<^verbatim>\<open>count = 0\<close> of \<^verbatim>\<open>size = 1\<close>, with or without input.
\<close>

theorem progress_counter_skips_nested_config:
  "visible_prompts (schema_items (context_one ''db'' nested_host)) = [''db'']
   \<and> resolve_passes scripted env_mini (context_one ''db'' nested_host) (VDict False []) True []
     = Some (Inr (([(''db'', VDict True [(''host'', VStr ''localhost'')])], 0), []))
   \<and> resolve_passes scripted env_mini (context_one ''db'' nested_host) (VDict False []) False [''h'']
     = Some (Inr (([(''db'', VDict True [(''host'', VStr ''h'')])], 0), []))"
  by (simp add: run_defs context_one_def nested_host_def)

text \<open>
  C6: under no-input every call returns, and two calls on equal contexts give the same
  context and the same outcome (the same mapping or the same exception) whatever the
  collaborators and the terminals are, and leave the terminal as it was. The same holds for
  a second call on the context as the first call left it, when the environment made from it
  is the same.
\<close>

theorem no_input_deterministic:
  fixes C :: "'a collab" and C' :: "'b collab"
  shows "\<exists>context' out.
     prompt_for_config mk C context True w = Some (context', map_sum id (\<lambda>cd. (cd, w)) out)
     \<and> prompt_for_config mk C' context True w' = Some (context', map_sum id (\<lambda>cd. (cd, w')) out)
     \<and> (mk context' = mk context \<longrightarrow>
          prompt_for_config mk C' context' True w' = Some (context', map_sum id (\<lambda>cd. (cd, w')) out))"
proof -
  from no_input_via_silent [of mk "context" C w] obtain c1 o1 where
    1: "prompt_for_config mk silent context True () = Some (c1, map_sum id (\<lambda>cd. (cd, ())) o1)"
       "prompt_for_config mk C context True w = Some (c1, map_sum id (\<lambda>cd. (cd, w)) o1)"
    by blast
  from no_input_via_silent [of mk "context" C' w'] obtain c2 o2 where
    2: "prompt_for_config mk silent context True () = Some (c2, map_sum id (\<lambda>cd. (cd, ())) o2)"
       "prompt_for_config mk C' context True w' = Some (c2, map_sum id (\<lambda>cd. (cd, w')) o2)"
       "mk c2 = mk context \<longrightarrow>
          prompt_for_config mk C' c2 True w' = Some (c2, map_sum id (\<lambda>cd. (cd, w')) o2)"
    by blast
  from 1(1) 2(1) have "c1 = c2" and "map_sum id (\<lambda>cd. (cd, ())) o1 = map_sum id (\<lambda>cd. (cd, ())) o2"
    by simp_all
  then have "c1 = c2" "o1 = o2"
    by (cases o1; cases o2; simp)+
  with 1 2 show ?thesis by blast
qed

theorem no_input_deterministic_witness:
  "prompt_for_config create_env_mini scripted context_order True [''typed'']
     = Some ([(''cookiecutter'', VDict True (dict_del ''__prompts__'' schema_order))],
             Inr ([(''_copy'', VList [VStr ''*.png'']), (''name'', VStr ''App''),
                   (''kind'', VDict False [(''choice'', VStr ''lib'')]),
                   (''__slug'', VStr ''App''),
                   (''settings'', VDict False [(''level'', VStr ''App'')]),
                   (''db'', VDict True [(''host'', VStr ''localhost'')])], [''typed'']))
   \<and> create_env_mini [(''cookiecutter'', VDict True (dict_del ''__prompts__'' schema_order))]
     = create_env_mini context_order
   \<and> prompt_for_config create_env_mini silent
        [(''cookiecutter'', VDict True (dict_del ''__prompts__'' schema_order))] True ()
     = Some ([(''cookiecutter'', VDict True (dict_del ''__prompts__'' schema_order))],
             Inr ([(''_copy'', VList [VStr ''*.png'']), (''name'', VStr ''App''),
                   (''kind'', VDict False [(''choice'', VStr ''lib'')]),
                   (''__slug'', VStr ''App''),
                   (''settings'', VDict False [(''level'', VStr ''App'')]),
                   (''db'', VDict True [(''host'', VStr ''localhost'')])], ()))"
proof -
  let ?ctx' = "[(''cookiecutter'', VDict True (dict_del ''__prompts__'' schema_order))]"
  let ?res = "[(''_copy'', VList [VStr ''*.png'']), (''name'', VStr ''App''),
                   (''kind'', VDict False [(''choice'', VStr ''lib'')]),
                   (''__slug'', VStr ''App''),
                   (''settings'', VDict False [(''level'', VStr ''App'')]),
                   (''db'', VDict True [(''host'', VStr ''localhost'')])]"
  have run: "prompt_for_config create_env_mini scripted context_order True [''typed'']
     = Some (?ctx', Inr (?res, [''typed'']))"
    by (simp add: run_defs context_order_def schema_order_def)
  have same: "create_env_mini ?ctx' = create_env_mini context_order"
    by (simp add: create_env_mini_def)
  from no_input_deterministic [of create_env_mini scripted context_order "[''typed'']" silent "()"]
  obtain context' out where
    a: "prompt_for_config create_env_mini scripted context_order True [''typed'']
          = Some (context', map_sum id (\<lambda>cd. (cd, [''typed''])) out)"
    and b: "create_env_mini context' = create_env_mini context_order \<longrightarrow>
          prompt_for_config create_env_mini silent context' True ()
            = Some (context', map_sum id (\<lambda>cd. (cd, ())) out)"
    by blast
  from a run have c: "context' = ?ctx'" and "map_sum id (\<lambda>cd. (cd, [''typed''])) out = Inr (?res, [''typed''])"
    by simp_all
  then have "out = Inr ?res" by (cases out) auto
  with b c same have "prompt_for_config create_env_mini silent ?ctx' True () = Some (?ctx', Inr (?res, ()))"
    by simp
  with run same show ?thesis by blast
qed

text \<open>
  C7: under no-input, for a \<^verbatim>\<open>templates\<close> mapping whose options are dictionaries,
  \<open>choose_nested_template\<close> returns the path resolved under the repository directory from the
  \<^verbatim>\<open>path\<close> of the first option, when that is a string that is not empty and not absolute.
\<close>

theorem first_template_chosen:
  assumes env: "mk context = Inr env"
    and schema: "map_of context ''cookiecutter'' = Some (VDict od schema)"
    and templates: "map_of schema ''templates'' = Some (VDict od' ((k0, VDict od0 o0) # rest))"
    and dicts: "\<forall>(k, v) \<in> set rest. is_dict v"
    and path: "map_of o0 ''path'' = Some (VStr p)"
    and nonempty: "p \<noteq> []"
    and relative: "\<not> is_absolute fs p"
  shows "snd (choose_nested_template mk fs C context repo_dir True w)
           = map_sum id (\<lambda>template_path. (template_path, w)) (resolve_under fs repo_dir p)"
proof -
  let ?config = "VDict od' ((k0, VDict od0 o0) # rest)"
  let ?context' = "dict_set ''cookiecutter'' (VDict od (dict_del ''__prompts__'' schema)) context"
  have pop: "pop_prompts context = Inr (dict_get schema ''__prompts__'' (VDict False []), ?context')"
    by (rule pop_prompts_of_schema [OF schema])
  have S: "schema_items ?context' = dict_del ''__prompts__'' schema"
    by (simp add: schema_items_def map_of_dict_set_same)
  have cfg: "dict_get (dict_del ''__prompts__'' schema) ''templates'' (VDict False []) = ?config"
    using templates by (simp add: dict_get_def map_of_dict_del_other)
  have "\<forall>(k, v) \<in> set ((k0, VDict od0 o0) # rest). is_dict v" using dicts by simp
  from prompts_from_options_dicts [OF this] obtain pr where
    pr: "prompts_from_options C ((k0, VDict od0 o0) # rest)
           [(''__prompt__'', VStr ''Select a template'')] = Inr pr"
    by blast
  have choice: "prompt_choice_for_template C ''templates'' ?config True w = Inr (VStr k0, w)"
    using pr unfolding prompt_choice_for_template_def Let_def by simp
  have opt: "option_path ?config (VStr k0) = Inr (VStr p)"
    using path by (simp add: option_path_def)
  have sel: "select_template C env (dict_del ''__prompts__'' schema)
               (dict_get schema ''__prompts__'' (VDict False [])) True w = Inr (VStr p, w)"
    using choice opt by (simp add: select_template_def cfg)
  have chk: "checked_path fs repo_dir (VStr p) = resolve_under fs repo_dir p"
    using nonempty relative by (simp add: checked_path_def)
  show ?thesis
    using env pop S sel chk
    by (cases "resolve_under fs repo_dir p") (simp_all add: choose_nested_template_def)
qed

theorem first_template_chosen_witness:
  "create_env_mini context_templates = Inr env_mini
   \<and> map_of [(''path'', VStr ''tpl1'')] ''path'' = Some (VStr ''tpl1'')
   \<and> \<not> is_absolute posix_like ''tpl1''
   \<and> snd (choose_nested_template create_env_mini posix_like scripted context_templates
             ''/repo'' True [])
     = Inr (''/repo/tpl1'', [])"
proof -
  have env: "create_env_mini context_templates = Inr env_mini" by (simp add: create_env_mini_def)
  have schema: "map_of context_templates ''cookiecutter'' =
      Some (VDict True [(''templates'',
           VDict True
             [(''default'', VDict True [(''path'', VStr ''tpl1'')]),
              (''alt'', VDict True [(''path'', VStr ''tpl2'')])])])"
    by (simp add: context_templates_def)
  have templates: "map_of [(''templates'',
           VDict True
             [(''default'', VDict True [(''path'', VStr ''tpl1'')]),
              (''alt'', VDict True [(''path'', VStr ''tpl2'')])])] ''templates'' =
      Some (VDict True ((''default'', VDict True [(''path'', VStr ''tpl1'')])
                        # [(''alt'', VDict True [(''path'', VStr ''tpl2'')])]))"
    by simp
  have dicts: "\<forall>(k, v) \<in> set [(''alt'', VDict True [(''path'', VStr ''tpl2'')])]. is_dict v"
    by simp
  have path: "map_of [(''path'', VStr ''tpl1'')] ''path'' = Some (VStr ''tpl1'')" by simp
  have nonempty: "''tpl1'' \<noteq> []" by simp
  have relative: "\<not> is_absolute posix_like ''tpl1''" by (simp add: posix_like_def)
  have "snd (choose_nested_template create_env_mini posix_like scripted context_templates
             ''/repo'' True []) = Inr (''/repo/tpl1'', [])"
    using first_template_chosen [where mk = create_env_mini and fs = posix_like and C = scripted
        and repo_dir = "''/repo''" and w = "[]", OF env schema templates dicts path nonempty relative]
    by (simp add: posix_like_def)
  with env path relative show ?thesis by blast
qed

text \<open>
  C10: when the environment is made and \<^verbatim>\<open>context['cookiecutter']\<close> is a dictionary, a call of
  \<open>prompt_for_config\<close> that returns or raises leaves the context with \<^verbatim>\<open>__prompts__\<close> removed
  from the schema and everything else as it was: the other entries of the schema in their
  order, the keys of the context in their order and the values under its other keys. The
  mapping it returns has no key \<^verbatim>\<open>__prompts__\<close>. \<open>choose_nested_template\<close> leaves the same
  context.
\<close>

theorem prompts_popped:
  assumes env: "mk context = Inr env"
    and schema: "map_of context ''cookiecutter'' = Some (VDict od schema)"
    and run: "prompt_for_config mk C context no_input w = Some (context', outcome)"
  shows "context' = dict_set ''cookiecutter'' (VDict od (dict_del ''__prompts__'' schema)) context
       \<and> schema_items context' = filter (\<lambda>(k, v). k \<noteq> ''__prompts__'') schema
       \<and> ''__prompts__'' \<notin> fst ` set (schema_items context')
       \<and> map fst context' = map fst context
       \<and> (\<forall>k. k \<noteq> ''cookiecutter'' \<longrightarrow> map_of context' k = map_of context k)
       \<and> (\<forall>result w'. outcome = Inr (result, w') \<longrightarrow> ''__prompts__'' \<notin> fst ` set result)
       \<and> fst (choose_nested_template mk fs C context repo_dir no_input w) = context'"
proof -
  let ?prompts = "dict_get schema ''__prompts__'' (VDict False [])"
  let ?context' = "dict_set ''cookiecutter'' (VDict od (dict_del ''__prompts__'' schema)) context"
  have pop: "pop_prompts context = Inr (?prompts, ?context')"
    by (rule pop_prompts_of_schema [OF schema])
  have c: "context' = ?context'"
    using run env pop by (auto simp: prompt_for_config_def split: option.splits sum.splits)
  have S: "schema_items context' = filter (\<lambda>(k, v). k \<noteq> ''__prompts__'') schema"
    unfolding c by (simp add: schema_items_def map_of_dict_set_same dict_del_def)
  have notin: "''__prompts__'' \<notin> fst ` set (schema_items context')"
    unfolding S by auto
  have "''cookiecutter'' \<in> fst ` set context"
    using schema by (metis domI dom_map_of_conv_image_fst)
  then have keys: "map fst context' = map fst context"
    unfolding c by (rule keys_order_dict_set_present)
  have others: "\<forall>k. k \<noteq> ''cookiecutter'' \<longrightarrow> map_of context' k = map_of context k"
    unfolding c by (simp add: map_of_dict_set_other)
  have res: "''__prompts__'' \<notin> fst ` set result" if "outcome = Inr (result, w')" for result w'
  proof -
    from run that have "prompt_for_config mk C context no_input w = Some (context', Inr (result, w'))"
      by simp
    then obtain env' prompts' st1 w1 count where
      p1: "first_pass C env' context' prompts' no_input (length (visible_prompts (schema_items context')))
         (schema_items context') ([], 0) w = Some (Inr (st1, w1))"
      and p2: "second_pass C env' context' prompts' no_input (length (visible_prompts (schema_items context')))
         (schema_items context') st1 w1 = Inr ((result, count), w')"
      by (rule prompt_for_config_runs)
    from first_pass_keys [OF p1]
    have a: "fst ` set (fst st1) \<subseteq> fst ` set (schema_items context')" by simp
    from second_pass_keys [OF p2]
    have b: "fst ` set result \<subseteq> fst ` set (schema_items context') \<union> fst ` set (fst st1)"
      by simp
    from a b have "fst ` set result \<subseteq> fst ` set (schema_items context')"
      by (rule subset_both)
    with notin show ?thesis by blast
  qed
  have t: "fst (choose_nested_template mk fs C context repo_dir no_input w) = context'"
    using env pop c by (simp add: choose_nested_template_def)
  from res have res': "\<forall>result w'. outcome = Inr (result, w') \<longrightarrow> ''__prompts__'' \<notin> fst ` set result"
    by blast
  show ?thesis
    by (rule conjI [OF c conjI [OF S conjI [OF notin conjI [OF keys conjI [OF others
          conjI [OF res' t]]]]]])
qed

theorem prompts_popped_witness:
  "create_env_mini context_order = Inr env_mini
   \<and> map_of context_order ''cookiecutter'' = Some (VDict True schema_order)
   \<and> prompt_for_config create_env_mini scripted context_order True []
     = Some ([(''cookiecutter'', VDict True (dict_del ''__prompts__'' schema_order))],
             Inr ([(''_copy'', VList [VStr ''*.png'']), (''name'', VStr ''App''),
                   (''kind'', VDict False [(''choice'', VStr ''lib'')]),
                   (''__slug'', VStr ''App''),
                   (''settings'', VDict False [(''level'', VStr ''App'')]),
                   (''db'', VDict True [(''host'', VStr ''localhost'')])], []))
   \<and> ''__prompts__'' \<notin> fst ` set (schema_items
         [(''cookiecutter'', VDict True (dict_del ''__prompts__'' schema_order))])
   \<and> fst (choose_nested_template create_env_mini posix_like scripted context_order ''/repo'' True [])
     = [(''cookiecutter'', VDict True (dict_del ''__prompts__'' schema_order))]"
proof -
  let ?ctx' = "[(''cookiecutter'', VDict True (dict_del ''__prompts__'' schema_order))]"
  have env: "create_env_mini context_order = Inr env_mini" by (simp add: create_env_mini_def)
  have schema: "map_of context_order ''cookiecutter'' = Some (VDict True schema_order)"
    by (simp add: context_order_def)
  have run: "prompt_for_config create_env_mini scripted context_order True []
     = Some (?ctx',
             Inr ([(''_copy'', VList [VStr ''*.png'']), (''name'', VStr ''App''),
                   (''kind'', VDict False [(''choice'', VStr ''lib'')]),
                   (''__slug'', VStr ''App''),
                   (''settings'', VDict False [(''level'', VStr ''App'')]),
                   (''db'', VDict True [(''host'', VStr ''localhost'')])], []))"
    by (simp add: run_defs context_order_def schema_order_def)
  note t = prompts_popped [OF env schema run, of posix_like "''/repo''"]
  from t have a: "''__prompts__'' \<notin> fst ` set (schema_items ?ctx')"
    by (elim conjE)
  from t have b: "fst (choose_nested_template create_env_mini posix_like scripted context_order
                    ''/repo'' True []) = ?ctx'"
    by (elim conjE)
  show ?thesis
    by (rule conjI [OF env conjI [OF schema conjI [OF run conjI [OF a b]]]])
qed

end
